theory Spec2Isabelle
  imports Complex_Main "HOL-Library.AList" "HOL-Library.Char_ord" "HOL-Library.List_Lexorder"
    "HOL-Library.Log_Nat" "HOL-Library.Option_ord"
begin

section \<open>Data model of pl-order-blocks\<close>

text \<open>
  The enumerations of \<^verbatim>\<open>pl-order-blocks.py\<close>. Two Python enums share member names
  (\<^verbatim>\<open>ORDERED\<close>, \<^verbatim>\<open>NONE\<close>); the members of \<^verbatim>\<open>SourceBlocksOrderType\<close>,
  \<^verbatim>\<open>FeedbackType\<close> and \<^verbatim>\<open>PartialCreditType\<close> carry a prefix here.
\<close>

datatype GradingMethodType = UNORDERED | ORDERED | RANKING | DAG | EXTERNAL

datatype SourceBlocksOrderType = SRC_RANDOM | SRC_ALPHABETIZED | SRC_ORDERED

datatype FeedbackType = FB_NONE | FIRST_WRONG

datatype PartialCreditType = PC_NONE | LCS

datatype FormatType = DEFAULT | CODE

text \<open>Exceptions are values; every \<^verbatim>\<open>raise\<close> of the source is an \<open>Inl\<close>.\<close>

datatype py_error =
    KeyError
  | ZeroDivisionError
  | ValueError
  | ConfigError string
  | CheckerError string

record GroupInfo =
  gtag :: "string option"
  gdepends :: "string list option"

text \<open>
  \<^verbatim>\<open>OrderBlocksAnswerData\<close>. The same dictionaries serve as correct answers, as blocks
  shown to the student and (in the self-check of \<^verbatim>\<open>prepare\<close>) as a submission, so one
  record covers all three. A submission is a JSON list of dictionaries: its \<^verbatim>\<open>inner_html\<close>
  and \<^verbatim>\<open>indent\<close> may be \<^verbatim>\<open>None\<close>, and its \<^verbatim>\<open>tag\<close> key may be missing
  (\<open>tag = None\<close>), present with value \<^verbatim>\<open>None\<close> (\<open>Some None\<close>) or a string.
  \<^verbatim>\<open>grade\<close> reads only \<^verbatim>\<open>uuid\<close>, \<^verbatim>\<open>indent\<close>, \<^verbatim>\<open>tag\<close> and \<^verbatim>\<open>inner_html\<close>
  of a submitted block.
\<close>

record OrderBlocksAnswerData =
  inner_html :: "string option"
  indent :: "int option"
  ranking :: int
  index :: nat
  tag :: "string option option"
  distractor_for :: "string option"
  depends :: "string list"
  group_info :: GroupInfo
  distractor_bin :: "string option"
  uuid :: string

text \<open>
  The pieces of \<^verbatim>\<open>FIRST_WRONG_FEEDBACK\<close>; a feedback string is the concatenation of
  such pieces, the empty list being the empty string.
\<close>

datatype feedback_part =
    Incomplete
  | WrongAtBlock int
  | IndentationHint
  | BlockGroupHint
  | UlClose

record PartialScore =
  score :: rat
  feedback :: "feedback_part list"
  weight :: int

text \<open>The part of \<^verbatim>\<open>pl.QuestionData\<close> the element reads and writes, keyed by answer name.\<close>

record QuestionData =
  params :: "string \<rightharpoonup> OrderBlocksAnswerData list"
  correct_answers :: "string \<rightharpoonup> OrderBlocksAnswerData list"
  submitted_answers :: "string \<rightharpoonup> OrderBlocksAnswerData list"
  partial_scores :: "string \<rightharpoonup> PartialScore"

text \<open>
  A node of the dependency graph is a tag as Python holds it (a string or \<^verbatim>\<open>None\<close>);
  a dependency list is a list of such tags.
  A Python \<^verbatim>\<open>dict\<close> keeps insertion order and overwrites in place, which is
  \<open>AList.update\<close> on an association list.
\<close>

type_synonym node = "string option"
type_synonym depends_graph = "(node \<times> node list) list"
type_synonym group_belonging = "(node \<times> string option) list"

definition dict_of :: "('k \<times> 'v) list \<Rightarrow> ('k \<times> 'v) list" where
  "dict_of kvs = foldl (\<lambda>d (k, v). AList.update k v d) [] kvs"

definition dict_update :: "('k \<times> 'v) list \<Rightarrow> ('k \<times> 'v) list \<Rightarrow> ('k \<times> 'v) list" where
  "dict_update d other = foldl (\<lambda>d (k, v). AList.update k v d) d other"

text \<open>
  \<^verbatim>\<open>dag_checker\<close> (\<^verbatim>\<open>grade_dag\<close>, \<^verbatim>\<open>lcs_partial_credit\<close>, \<^verbatim>\<open>solve_dag\<close>) is imported
  by the element and is not part of the file; the three functions are parameters of the
  model. Each may raise.
\<close>

record dag_checker =
  grade_dag :: "node list \<Rightarrow> depends_graph \<Rightarrow> group_belonging \<Rightarrow> py_error + (int \<times> int)"
  lcs_partial_credit :: "node list \<Rightarrow> depends_graph \<Rightarrow> group_belonging \<Rightarrow> py_error + int"
  solve_dag :: "depends_graph \<Rightarrow> group_belonging \<Rightarrow> py_error + node list"

text \<open>
  The attributes of the \<^verbatim>\<open><pl-order-blocks>\<close> element that \<^verbatim>\<open>grade\<close> and \<^verbatim>\<open>prepare\<close>
  read, already parsed by \<^verbatim>\<open>pl.get_*_attrib\<close>; \<open>None\<close> is an absent attribute.
\<close>

record pl_attribs =
  answers_name :: string
  source_blocks_order_attr :: "SourceBlocksOrderType option"
  grading_method_attr :: "GradingMethodType option"
  indentation_attr :: "bool option"
  max_incorrect_attr :: "int option"
  min_incorrect_attr :: "int option"
  weight_attr :: "int option"
  feedback_attr :: "FeedbackType option"
  partial_credit_attr :: "PartialCreditType option"
  format_attr :: "FormatType option"
  code_language_attr :: "string option"

definition get_attrib :: "'a option \<Rightarrow> 'a \<Rightarrow> 'a" where
  "get_attrib a dflt = (case a of None \<Rightarrow> dflt | Some v \<Rightarrow> v)"

definition GRADING_METHOD_DEFAULT :: GradingMethodType where
  "GRADING_METHOD_DEFAULT = ORDERED"

definition SOURCE_BLOCKS_ORDER_DEFAULT :: SourceBlocksOrderType where
  "SOURCE_BLOCKS_ORDER_DEFAULT = SRC_ALPHABETIZED"

definition FEEDBACK_DEFAULT :: FeedbackType where
  "FEEDBACK_DEFAULT = FB_NONE"

definition PL_ANSWER_CORRECT_DEFAULT :: bool where
  "PL_ANSWER_CORRECT_DEFAULT = True"

definition INDENTION_DEFAULT :: bool where
  "INDENTION_DEFAULT = False"

definition WEIGHT_DEFAULT :: int where
  "WEIGHT_DEFAULT = 1"

section \<open>grade\<close>

text \<open>
  Scores are Python floats (or the ints 0 and 1). A float is an IEEE 754 binary64 number
  and is held here as the rational number it denotes. \<open>py_float x\<close> is the float nearest
  to \<open>x\<close>, ties going to the even significand: with \<open>2 ^ e \<le> \<bar>x\<bar> < 2 ^ (e + 1)\<close> the
  floats around \<open>x\<close> are the multiples of \<open>2 ^ (e - 52)\<close>. The exponent range is not
  bounded: the integers converted here are counts of blocks, far below \<open>2 ^ 1024\<close>, and
  the quotient of two of them is never subnormal.
\<close>

definition round_half_even :: "rat \<Rightarrow> int" where
  "round_half_even y =
     (let f = \<lfloor>y\<rfloor>; d = y - of_int f
      in if d < 1 / 2 then f else if 1 / 2 < d then f + 1
         else if even f then f else f + 1)"

definition binade :: "rat \<Rightarrow> int" where
  "binade x =
     (let (p, q) = quotient_of \<bar>x\<bar>; e = bitlen p - bitlen q
      in if 2 powi e \<le> \<bar>x\<bar> then e else e - 1)"

definition py_float :: "rat \<Rightarrow> rat" where
  "py_float x =
     (if x = 0 then 0
      else (let ulp = 2 powi (binade x - 52)
            in of_int (round_half_even (x / ulp)) * ulp))"

text \<open>
  \<^verbatim>\<open>float(a) / b\<close> for ints \<^verbatim>\<open>a\<close> and \<^verbatim>\<open>b\<close>, \<^verbatim>\<open>b\<close> not zero: both are converted
  to floats and the quotient of the two floats is rounded to a float.
\<close>

definition py_fdiv :: "int \<Rightarrow> int \<Rightarrow> rat" where
  "py_fdiv a b = py_float (py_float (of_int a) / py_float (of_int b))"

text \<open>
  \<^verbatim>\<open>round(x, 2)\<close> of a float \<^verbatim>\<open>x\<close>: the value that \<^verbatim>\<open>x\<close> denotes is rounded to
  hundredths, ties to even, and the result is the float nearest to that decimal.
  For the ints 0 and 1 it is the int itself.
\<close>

definition py_round2 :: "rat \<Rightarrow> rat" where
  "py_round2 x = py_float (of_int (round_half_even (x * 100)) / 100)"

text \<open>
  The indentation gate, lines 702-710. \<^verbatim>\<open>indentations\<close> maps the uuid of each correct
  answer to its indent; \<^verbatim>\<open>dict.get\<close> gives \<^verbatim>\<open>None\<close> both for a missing uuid and for a
  stored \<^verbatim>\<open>None\<close>. The loop assigns into the submitted dictionaries: the gated list is
  the new content of the submission.
\<close>

definition indentations :: "OrderBlocksAnswerData list \<Rightarrow> (string \<times> int option) list" where
  "indentations true_answer_list = dict_of (map (\<lambda>ans. (uuid ans, indent ans)) true_answer_list)"

definition dict_get :: "('k \<times> 'v option) list \<Rightarrow> 'k \<Rightarrow> 'v option" where
  "dict_get d k = (case map_of d k of None \<Rightarrow> None | Some v \<Rightarrow> v)"

definition gate_block ::
  "(string \<times> int option) list \<Rightarrow> OrderBlocksAnswerData \<Rightarrow> OrderBlocksAnswerData" where
  "gate_block inds ans =
     (let indentation = dict_get inds (uuid ans)
      in if indentation \<noteq> Some (- 1) \<and> indent ans \<noteq> indentation
         then (if tag ans \<noteq> None then ans\<lparr>tag := Some None\<rparr>
               else ans\<lparr>inner_html := None\<rparr>)
         else ans)"

definition indentation_gate ::
  "bool \<Rightarrow> OrderBlocksAnswerData list \<Rightarrow> OrderBlocksAnswerData list \<Rightarrow> OrderBlocksAnswerData list" where
  "indentation_gate check_indentation true_answer_list student_answer =
     (if check_indentation
      then map (gate_block (indentations true_answer_list)) student_answer
      else student_answer)"

text \<open>The \<^verbatim>\<open>UNORDERED\<close> branch, lines 712-721.\<close>

definition unordered_score ::
  "OrderBlocksAnswerData list \<Rightarrow> OrderBlocksAnswerData list \<Rightarrow> py_error + rat" where
  "unordered_score true_answer_list student_answer =
     (let true_answer_uuids = set (map uuid true_answer_list);
          student_answer_uuids = set (map uuid student_answer);
          correct_selections = int (card (true_answer_uuids \<inter> student_answer_uuids));
          incorrect_selections = int (length student_answer) - correct_selections
      in if length true_answer_list = 0 then Inl ZeroDivisionError
         else Inr (max 0 (py_fdiv (correct_selections - incorrect_selections)
                                  (int (length true_answer_list)))))"

text \<open>The \<^verbatim>\<open>ORDERED\<close> branch, lines 723-726.\<close>

definition ordered_score ::
  "OrderBlocksAnswerData list \<Rightarrow> OrderBlocksAnswerData list \<Rightarrow> rat" where
  "ordered_score true_answer_list student_answer =
     (if map inner_html student_answer = map inner_html true_answer_list then 1 else 0)"

text \<open>
  \<^verbatim>\<open>[ans["tag"] for ans in ...]\<close>: a dictionary without the key raises \<^verbatim>\<open>KeyError\<close>.
\<close>

fun tags_of :: "OrderBlocksAnswerData list \<Rightarrow> py_error + node list" where
  "tags_of [] = Inr []"
| "tags_of (ans # rest) =
     (case tag ans of
        None \<Rightarrow> Inl KeyError
      | Some t \<Rightarrow> (case tags_of rest of Inl e \<Rightarrow> Inl e | Inr ts \<Rightarrow> Inr (t # ts)))"

text \<open>
  The rank normaliser, lines 733-751. \<^verbatim>\<open>sorted\<close> is stable, as \<open>sort_key\<close> is.
  \<^verbatim>\<open>lines_of_rank\<close> is only ever indexed, so it is a function of the rank;
  its value lists the keys of \<^verbatim>\<open>tag_to_rank\<close> in insertion order.
\<close>

definition lines_of_rank :: "(node \<times> int) list \<Rightarrow> int \<Rightarrow> node list" where
  "lines_of_rank tag_to_rank rank =
     [t \<leftarrow> map fst tag_to_rank. map_of tag_to_rank t = Some rank]"

fun rank_loop ::
  "(node \<times> int) list \<Rightarrow> node list \<Rightarrow> depends_graph \<Rightarrow> node list \<Rightarrow> int option
     \<Rightarrow> py_error + depends_graph" where
  "rank_loop tag_to_rank [] depends_graph cur_rank_depends prev_rank = Inr depends_graph"
| "rank_loop tag_to_rank (t # rest) depends_graph cur_rank_depends prev_rank =
     (case map_of tag_to_rank t of
        None \<Rightarrow> Inl KeyError
      | Some rk \<Rightarrow>
          (let cur = (case prev_rank of
                        None \<Rightarrow> cur_rank_depends
                      | Some p \<Rightarrow> if rk \<noteq> p then lines_of_rank tag_to_rank p
                                  else cur_rank_depends)
           in rank_loop tag_to_rank rest (AList.update t cur depends_graph) cur (Some rk)))"

definition ranking_graph :: "OrderBlocksAnswerData list \<Rightarrow> py_error + depends_graph" where
  "ranking_graph true_answer_list =
     (let sorted_list = sort_key ranking true_answer_list
      in case tags_of sorted_list of
           Inl e \<Rightarrow> Inl e
         | Inr true_answer \<Rightarrow>
             (let tag_to_rank = dict_of (zip true_answer (map ranking sorted_list))
              in rank_loop tag_to_rank true_answer [] [] None))"

text \<open>\<^verbatim>\<open>extract_dag\<close>, lines 103-115.\<close>

definition group_depends_items :: "OrderBlocksAnswerData list \<Rightarrow> (node \<times> node list) list" where
  "group_depends_items answers_list =
     concat (map (\<lambda>ans. case (gdepends (group_info ans), gtag (group_info ans)) of
                           (Some d, Some g) \<Rightarrow> [(Some g, map Some d)]
                         | _ \<Rightarrow> [])
                 answers_list)"

definition extract_dag ::
  "OrderBlocksAnswerData list \<Rightarrow> py_error + (depends_graph \<times> group_belonging)" where
  "extract_dag answers_list =
     (case tags_of answers_list of
        Inl e \<Rightarrow> Inl e
      | Inr ts \<Rightarrow>
          (let depends_graph = dict_of (zip ts (map (\<lambda>ans. map Some (depends ans)) answers_list));
               group_belonging = dict_of (zip ts (map (\<lambda>ans. gtag (group_info ans)) answers_list));
               group_depends = dict_of (group_depends_items answers_list)
           in Inr (dict_update depends_graph group_depends, group_belonging)))"

text \<open>Lines 728-754: the submission as tags, and the graph of the grading method.\<close>

definition build_graph ::
  "GradingMethodType \<Rightarrow> OrderBlocksAnswerData list
     \<Rightarrow> py_error + (depends_graph \<times> group_belonging)" where
  "build_graph grading_method true_answer_list =
     (if grading_method = RANKING
      then (case ranking_graph true_answer_list of
              Inl e \<Rightarrow> Inl e
            | Inr g \<Rightarrow> Inr (g, []))
      else extract_dag true_answer_list)"

text \<open>Lines 759-761.\<close>

definition first_wrong_of :: "int \<Rightarrow> node list \<Rightarrow> int option" where
  "first_wrong_of num_initial_correct submission =
     (if num_initial_correct = int (length submission) then None else Some num_initial_correct)"

text \<open>
  Lines 763-774. With \<^verbatim>\<open>NONE\<close> a count above the true length leaves the initial
  \<^verbatim>\<open>final_score = 0\<close>.
\<close>

definition partial_credit_score ::
  "dag_checker \<Rightarrow> PartialCreditType \<Rightarrow> node list \<Rightarrow> depends_graph \<Rightarrow> group_belonging
     \<Rightarrow> int \<Rightarrow> int \<Rightarrow> py_error + rat" where
  "partial_credit_score chk partial_credit_type submission depends_graph group_belonging
       num_initial_correct true_answer_length =
     (case partial_credit_type of
        PC_NONE \<Rightarrow>
          Inr (if num_initial_correct = true_answer_length then 1
               else if num_initial_correct < true_answer_length then 0
               else 0)
      | LCS \<Rightarrow>
          (case lcs_partial_credit chk submission depends_graph group_belonging of
             Inl e \<Rightarrow> Inl e
           | Inr edit_distance \<Rightarrow>
               if true_answer_length = 0 then Inl ZeroDivisionError
               else Inr (max 0 (py_fdiv (true_answer_length - edit_distance)
                                        true_answer_length))))"

text \<open>Lines 776-793.\<close>

definition has_block_groups :: "group_belonging \<Rightarrow> bool" where
  "has_block_groups group_belonging =
     (group_belonging \<noteq> [] \<and> set (map snd group_belonging) \<noteq> {None})"

definition first_wrong_feedback ::
  "FeedbackType \<Rightarrow> bool \<Rightarrow> group_belonging \<Rightarrow> rat \<Rightarrow> int option \<Rightarrow> feedback_part list" where
  "first_wrong_feedback feedback_type check_indentation group_belonging final_score first_wrong =
     (if final_score < 1
      then (case feedback_type of
              FB_NONE \<Rightarrow> []
            | FIRST_WRONG \<Rightarrow>
                (case first_wrong of
                   None \<Rightarrow> [Incomplete]
                 | Some fw \<Rightarrow>
                     [WrongAtBlock (fw + 1)]
                     @ (if check_indentation then [IndentationHint] else [])
                     @ (if has_block_groups group_belonging then [BlockGroupHint] else [])
                     @ [UlClose]))
      else [])"

text \<open>The \<^verbatim>\<open>RANKING\<close>/\<^verbatim>\<open>DAG\<close> branch, lines 728-793: final score, first wrong index, feedback.\<close>

definition dag_branch ::
  "dag_checker \<Rightarrow> GradingMethodType \<Rightarrow> PartialCreditType \<Rightarrow> FeedbackType \<Rightarrow> bool
     \<Rightarrow> OrderBlocksAnswerData list \<Rightarrow> OrderBlocksAnswerData list
     \<Rightarrow> py_error + (rat \<times> int option \<times> feedback_part list)" where
  "dag_branch chk grading_method partial_credit_type feedback_type check_indentation
       true_answer_list student_answer =
     (case tags_of student_answer of
        Inl e \<Rightarrow> Inl e
      | Inr submission \<Rightarrow>
          (case build_graph grading_method true_answer_list of
             Inl e \<Rightarrow> Inl e
           | Inr (depends_graph, group_belonging) \<Rightarrow>
               (case grade_dag chk submission depends_graph group_belonging of
                  Inl e \<Rightarrow> Inl e
                | Inr (num_initial_correct, true_answer_length) \<Rightarrow>
                    (let first_wrong = first_wrong_of num_initial_correct submission
                     in case partial_credit_score chk partial_credit_type submission
                               depends_graph group_belonging
                               num_initial_correct true_answer_length of
                          Inl e \<Rightarrow> Inl e
                        | Inr final_score \<Rightarrow>
                            Inr (final_score, first_wrong,
                                 first_wrong_feedback feedback_type check_indentation
                                   group_belonging final_score first_wrong)))))"

text \<open>
  The policy dispatch of \<^verbatim>\<open>grade\<close>, lines 698-793, on the gated submission: the values
  of \<^verbatim>\<open>final_score\<close>, \<^verbatim>\<open>first_wrong\<close> and \<^verbatim>\<open>feedback\<close> when line 795 is reached.
  \<^verbatim>\<open>EXTERNAL\<close> matches no branch and keeps the initial values.
\<close>

definition dispatch ::
  "dag_checker \<Rightarrow> GradingMethodType \<Rightarrow> PartialCreditType \<Rightarrow> FeedbackType \<Rightarrow> bool
     \<Rightarrow> OrderBlocksAnswerData list \<Rightarrow> OrderBlocksAnswerData list
     \<Rightarrow> py_error + (rat \<times> int option \<times> feedback_part list)" where
  "dispatch chk grading_method partial_credit_type feedback_type check_indentation
       true_answer_list student_answer =
     (case grading_method of
        UNORDERED \<Rightarrow>
          (case unordered_score true_answer_list student_answer of
             Inl e \<Rightarrow> Inl e
           | Inr final_score \<Rightarrow> Inr (final_score, None, []))
      | ORDERED \<Rightarrow> Inr (ordered_score true_answer_list student_answer, None, [])
      | RANKING \<Rightarrow>
          dag_branch chk RANKING partial_credit_type feedback_type check_indentation
            true_answer_list student_answer
      | DAG \<Rightarrow>
          dag_branch chk DAG partial_credit_type feedback_type check_indentation
            true_answer_list student_answer
      | EXTERNAL \<Rightarrow> Inr (0, None, []))"

text \<open>
  \<^verbatim>\<open>grade\<close>, lines 679-799. The state is the question data; the result is the data
  after the call. The indentation gate writes into the dictionaries of
  \<^verbatim>\<open>data["submitted_answers"][answer_name]\<close>, so the gated list is stored there.
\<close>

definition grade :: "dag_checker \<Rightarrow> pl_attribs \<Rightarrow> QuestionData \<Rightarrow> py_error + QuestionData" where
  "grade chk element data =
     (let answer_name = answers_name element
      in case submitted_answers data answer_name of
           None \<Rightarrow> Inl KeyError
         | Some student_answer \<Rightarrow>
             (let grading_method = get_attrib (grading_method_attr element) GRADING_METHOD_DEFAULT;
                  check_indentation = get_attrib (indentation_attr element) INDENTION_DEFAULT;
                  feedback_type = get_attrib (feedback_attr element) FEEDBACK_DEFAULT;
                  answer_weight = get_attrib (weight_attr element) WEIGHT_DEFAULT;
                  partial_credit_type = get_attrib (partial_credit_attr element) LCS
              in case correct_answers data answer_name of
                   None \<Rightarrow> Inl KeyError
                 | Some true_answer_list \<Rightarrow>
                     (let gated = indentation_gate check_indentation true_answer_list student_answer;
                          data1 = data\<lparr>submitted_answers :=
                                         (submitted_answers data)(answer_name \<mapsto> gated)\<rparr>
                      in case dispatch chk grading_method partial_credit_type feedback_type
                                check_indentation true_answer_list gated of
                           Inl e \<Rightarrow> Inl e
                         | Inr (final_score, first_wrong, fb) \<Rightarrow>
                             Inr (data1\<lparr>partial_scores :=
                                    (partial_scores data1)(answer_name \<mapsto>
                                       \<lparr>score = py_round2 final_score, feedback = fb,
                                        weight = answer_weight\<rparr>)\<rparr>))))"

section \<open>prepare\<close>

text \<open>
  The children of \<^verbatim>\<open><pl-order-blocks>\<close> as \<^verbatim>\<open>lxml\<close> gives them: comments, and elements
  with a tag name, attributes, inner HTML and children. The attributes of
  \<^verbatim>\<open><pl-answer>\<close> and \<^verbatim>\<open><pl-block-group>\<close> are held as \<^verbatim>\<open>pl.get_*_attrib\<close> parses
  them; \<open>None\<close> is an absent attribute.
\<close>

record answer_attribs =
  correct_attr :: "bool option"
  indent_attr :: "int option"
  ranking_attr :: "int option"
  tag_attr :: "string option"
  depends_attr :: "string option"
  distractor_for_attr :: "string option"

datatype html = Comment | Element string answer_attribs string "html list"

text \<open>
  What \<^verbatim>\<open>prepare\<close> takes from outside the file: the attribute checks of the
  \<^verbatim>\<open>prairielearn\<close> library (\<open>True\<close> when the check passes), its uuid generator (the
  \<open>n\<close>-th uuid handed out) and the random choices of \<^verbatim>\<open>random\<close>.
\<close>

record pl_env =
  check_element :: "pl_attribs \<Rightarrow> bool"
  check_answers_names :: "string \<Rightarrow> bool"
  check_attribs :: "html \<Rightarrow> string list \<Rightarrow> string list \<Rightarrow> bool"
  get_uuid :: "nat \<Rightarrow> string"
  randint :: "int \<Rightarrow> int \<Rightarrow> int"
  sample :: "OrderBlocksAnswerData list \<Rightarrow> nat \<Rightarrow> OrderBlocksAnswerData list"
  shuffle :: "OrderBlocksAnswerData list \<Rightarrow> OrderBlocksAnswerData list"

text \<open>
  \<^verbatim>\<open>str.strip()\<close> and \<^verbatim>\<open>str.split(",")\<close>. A \<open>char\<close> is a code point below 256;
  the white space of Python among these is U+0009 to U+000D, U+001C to U+0020, U+0085
  and U+00A0.
\<close>

definition py_isspace :: "char \<Rightarrow> bool" where
  "py_isspace c =
     (let n = (of_char c :: nat)
      in (9 \<le> n \<and> n \<le> 13) \<or> (28 \<le> n \<and> n \<le> 32) \<or> n = 133 \<or> n = 160)"

definition strip :: "string \<Rightarrow> string" where
  "strip s = rev (dropWhile py_isspace (rev (dropWhile py_isspace s)))"

fun split_comma :: "string \<Rightarrow> string list" where
  "split_comma [] = [[]]"
| "split_comma (c # cs) =
     (if c = CHR '','' then [] # split_comma cs
      else (case split_comma cs of
              [] \<Rightarrow> [[c]]
            | w # ws \<Rightarrow> (c # w) # ws))"

text \<open>
  \<^verbatim>\<open>get_graph_info\<close>, lines 96-100. The default of the tag is a fresh uuid, generated
  whether or not the attribute is present; \<open>n\<close> is the number of uuids handed out so far.
\<close>

definition get_graph_info :: "pl_env \<Rightarrow> nat \<Rightarrow> answer_attribs \<Rightarrow> string \<times> string list" where
  "get_graph_info env n attrs =
     (let t = strip (get_attrib (tag_attr attrs) (get_uuid env n));
          d = get_attrib (depends_attr attrs) [];
          ds = (if d \<noteq> [] then map strip (split_comma d) else [])
      in (t, ds))"

text \<open>The state of the loop over the children, lines 198-200 and 298.\<close>

record prep_state =
  used_tags :: "string set"
  correct_acc :: "OrderBlocksAnswerData list"
  incorrect_acc :: "OrderBlocksAnswerData list"
  next_index :: nat
  uuid_count :: nat

definition answer_optional_attribs :: "GradingMethodType \<Rightarrow> string list" where
  "answer_optional_attribs grading_method =
     (case grading_method of
        EXTERNAL \<Rightarrow> [''correct'']
      | UNORDERED \<Rightarrow> [''correct'', ''indent'']
      | ORDERED \<Rightarrow> [''correct'', ''indent'']
      | RANKING \<Rightarrow> [''correct'', ''tag'', ''ranking'', ''indent'', ''distractor-for'']
      | DAG \<Rightarrow> [''correct'', ''tag'', ''depends'', ''comment'', ''indent'', ''distractor-for''])"

definition pl_code :: "string option \<Rightarrow> string \<Rightarrow> string" where
  "pl_code code_language inner =
     ''<pl-code''
     @ (case code_language of
          None \<Rightarrow> []
        | Some l \<Rightarrow> if l \<noteq> [] then '' language='' @ [CHR 0x22] @ l @ [CHR 0x22] else [])
     @ ''>'' @ inner @ ''</pl-code>''"

text \<open>
  \<^verbatim>\<open>prepare_tag\<close>, lines 202-296, on the loop state; \<open>idx\<close> is the \<^verbatim>\<open>index\<close> argument.
  Two uuids are generated: the default of the tag and the uuid of the block.
\<close>

definition prepare_tag ::
  "pl_env \<Rightarrow> GradingMethodType \<Rightarrow> bool \<Rightarrow> FormatType \<Rightarrow> string option
     \<Rightarrow> html \<Rightarrow> nat \<Rightarrow> GroupInfo \<Rightarrow> prep_state \<Rightarrow> py_error + prep_state" where
  "prepare_tag env grading_method check_indentation fmt code_language html_tags idx gi st =
     (case html_tags of
        Comment \<Rightarrow> Inl (ConfigError ''nested tags must be pl-answer or pl-block-group'')
      | Element name attrs inner kids \<Rightarrow>
          if name \<noteq> ''pl-answer''
          then Inl (ConfigError ''nested tags must be pl-answer or pl-block-group'')
          else if \<not> check_attribs env html_tags [] (answer_optional_attribs grading_method)
          then Inl (ConfigError ''check_attribs'')
          else
            (let is_correct = get_attrib (correct_attr attrs) PL_ANSWER_CORRECT_DEFAULT;
                 answer_indent = indent_attr attrs;
                 rk = get_attrib (ranking_attr attrs) (- 1);
                 dfor = distractor_for_attr attrs
             in if dfor \<noteq> None \<and> is_correct
                then Inl (ConfigError ''distractor-for only on blocks with correct=false'')
                else
                  (let (t, ds) = get_graph_info env (uuid_count st) attrs
                   in if is_correct \<and> t \<in> used_tags st
                      then Inl (ConfigError ''tag used in multiple places'')
                      else if \<not> check_indentation \<and> answer_indent \<noteq> None
                      then Inl (ConfigError ''indentation is disabled'')
                      else
                        (let inner1 = (if fmt = CODE then pl_code code_language inner else inner);
                             answer_data_dict =
                               \<lparr>inner_html = Some inner1, indent = answer_indent, ranking = rk,
                                index = idx, tag = Some (Some t), distractor_for = dfor,
                                depends = ds, group_info = gi, distractor_bin = None,
                                uuid = get_uuid env (Suc (uuid_count st))\<rparr>
                         in Inr (st\<lparr>used_tags := (if is_correct then insert t (used_tags st)
                                                   else used_tags st),
                                     correct_acc := (if is_correct
                                                     then correct_acc st @ [answer_data_dict]
                                                     else correct_acc st),
                                     incorrect_acc := (if is_correct then incorrect_acc st
                                                       else incorrect_acc st @ [answer_data_dict]),
                                     uuid_count := uuid_count st + 2\<rparr>)))))"

text \<open>
  The loop over the children of a block group, lines 316-323. Its comment test looks at
  the group, not at the child, so it never holds: a comment inside a group reaches
  \<^verbatim>\<open>prepare_tag\<close>.
\<close>

fun prepare_group ::
  "pl_env \<Rightarrow> GradingMethodType \<Rightarrow> bool \<Rightarrow> FormatType \<Rightarrow> string option
     \<Rightarrow> GroupInfo \<Rightarrow> html list \<Rightarrow> prep_state \<Rightarrow> py_error + prep_state" where
  "prepare_group env grading_method check_indentation fmt code_language gi [] st = Inr st"
| "prepare_group env grading_method check_indentation fmt code_language gi (grouped_tag # rest) st =
     (case prepare_tag env grading_method check_indentation fmt code_language grouped_tag
             (next_index st) gi st of
        Inl e \<Rightarrow> Inl e
      | Inr st1 \<Rightarrow>
          prepare_group env grading_method check_indentation fmt code_language gi rest
            (st1\<lparr>next_index := Suc (next_index st1)\<rparr>))"

text \<open>The loop over the children of the element, lines 298-326.\<close>

fun prepare_children ::
  "pl_env \<Rightarrow> GradingMethodType \<Rightarrow> bool \<Rightarrow> FormatType \<Rightarrow> string option
     \<Rightarrow> html list \<Rightarrow> prep_state \<Rightarrow> py_error + prep_state" where
  "prepare_children env grading_method check_indentation fmt code_language [] st = Inr st"
| "prepare_children env grading_method check_indentation fmt code_language (Comment # rest) st =
     prepare_children env grading_method check_indentation fmt code_language rest st"
| "prepare_children env grading_method check_indentation fmt code_language
       (Element name attrs inner kids # rest) st =
     (if name = ''pl-block-group''
      then (if grading_method \<noteq> DAG
            then Inl (ConfigError ''block groups only supported in the dag grading mode'')
            else
              (let (group_tag, group_depends) = get_graph_info env (uuid_count st) attrs
               in if group_tag \<in> used_tags st
                  then Inl (ConfigError ''tag used in multiple places'')
                  else
                    (case prepare_group env grading_method check_indentation fmt code_language
                            \<lparr>gtag = Some group_tag, gdepends = Some group_depends\<rparr> kids
                            (st\<lparr>used_tags := insert group_tag (used_tags st),
                                uuid_count := Suc (uuid_count st)\<rparr>) of
                       Inl e \<Rightarrow> Inl e
                     | Inr st1 \<Rightarrow>
                         prepare_children env grading_method check_indentation fmt
                           code_language rest st1)))
      else (case prepare_tag env grading_method check_indentation fmt code_language
                    (Element name attrs inner kids) (next_index st)
                    \<lparr>gtag = None, gdepends = None\<rparr> st of
              Inl e \<Rightarrow> Inl e
            | Inr st1 \<Rightarrow>
                prepare_children env grading_method check_indentation fmt code_language rest
                  (st1\<lparr>next_index := Suc (next_index st1)\<rparr>)))"

text \<open>
  \<^verbatim>\<open>solve_problem\<close>, lines 118-134. \<^verbatim>\<open>solution.index\<close> raises \<^verbatim>\<open>ValueError\<close> for a tag
  that is not in the solution.
\<close>

fun list_index :: "'a list \<Rightarrow> 'a \<Rightarrow> nat option" where
  "list_index [] y = None"
| "list_index (x # xs) y = (if x = y then Some 0 else map_option Suc (list_index xs y))"

fun solution_keys :: "node list \<Rightarrow> node list \<Rightarrow> py_error + nat list" where
  "solution_keys solution [] = Inr []"
| "solution_keys solution (t # ts) =
     (case list_index solution t of
        None \<Rightarrow> Inl ValueError
      | Some k \<Rightarrow> (case solution_keys solution ts of
                    Inl e \<Rightarrow> Inl e
                  | Inr ks \<Rightarrow> Inr (k # ks)))"

definition solve_problem ::
  "dag_checker \<Rightarrow> OrderBlocksAnswerData list \<Rightarrow> GradingMethodType
     \<Rightarrow> py_error + OrderBlocksAnswerData list" where
  "solve_problem chk answers_list grading_method =
     (if grading_method = EXTERNAL \<or> grading_method = UNORDERED \<or> grading_method = ORDERED
      then Inr answers_list
      else if grading_method = RANKING
      then Inr (sort_key ranking answers_list)
      else
        (case extract_dag answers_list of
           Inl e \<Rightarrow> Inl e
         | Inr (depends_graph, group_belonging) \<Rightarrow>
             (case solve_dag chk depends_graph group_belonging of
                Inl e \<Rightarrow> Inl e
              | Inr solution \<Rightarrow>
                  (case tags_of answers_list of
                     Inl e \<Rightarrow> Inl e
                   | Inr ts \<Rightarrow>
                       (case solution_keys solution ts of
                          Inl e \<Rightarrow> Inl e
                        | Inr ks \<Rightarrow> Inr (map snd (sort_key fst (zip ks answers_list))))))))"

text \<open>
  Lines 161-196 and 328-329 around the loop: the checks of the element, the loop, and
  the check that there is a correct answer.
\<close>

definition initial_state :: prep_state where
  "initial_state =
     \<lparr>used_tags = {}, correct_acc = [], incorrect_acc = [], next_index = 0, uuid_count = 0\<rparr>"

definition collect_blocks :: "pl_env \<Rightarrow> pl_attribs \<Rightarrow> html list \<Rightarrow> py_error + prep_state" where
  "collect_blocks env element children =
     (if \<not> check_element env element then Inl (ConfigError ''check_attribs'')
      else if \<not> check_answers_names env (answers_name element)
      then Inl (ConfigError ''duplicate answers-name'')
      else
        (let check_indentation = get_attrib (indentation_attr element) INDENTION_DEFAULT;
             grading_method = get_attrib (grading_method_attr element) GRADING_METHOD_DEFAULT;
             feedback_type = get_attrib (feedback_attr element) FEEDBACK_DEFAULT
         in if grading_method \<noteq> DAG \<and> grading_method \<noteq> RANKING
               \<and> partial_credit_attr element \<noteq> None
            then Inl (ConfigError ''partial credit only in the DAG and ranking grading modes'')
            else if grading_method \<noteq> DAG \<and> grading_method \<noteq> RANKING
               \<and> feedback_type \<noteq> FB_NONE
            then Inl (ConfigError ''feedback type not available with the grading method'')
            else
              (let fmt = get_attrib (format_attr element) DEFAULT;
                   code_language = code_language_attr element
               in if fmt = DEFAULT \<and> code_language \<noteq> None
                  then Inl (ConfigError ''code-language only with format code'')
                  else
                    (case prepare_children env grading_method check_indentation fmt
                            code_language children initial_state of
                       Inl e \<Rightarrow> Inl e
                     | Inr st \<Rightarrow>
                         if grading_method \<noteq> EXTERNAL \<and> length (correct_acc st) = 0
                         then Inl (ConfigError ''no correct answers specified'')
                         else Inr st))))"

text \<open>
  Lines 331-370: the number of distractors, their sample and the order of the blocks.
  \<^verbatim>\<open>random.sample\<close> raises \<^verbatim>\<open>ValueError\<close> for a negative or too large count.
\<close>

definition sample_blocks ::
  "pl_env \<Rightarrow> pl_attribs \<Rightarrow> prep_state \<Rightarrow> py_error + OrderBlocksAnswerData list" where
  "sample_blocks env element st =
     (let all_incorrect_answers = int (length (incorrect_acc st));
          max_incorrect = get_attrib (max_incorrect_attr element) all_incorrect_answers;
          min_incorrect = get_attrib (min_incorrect_attr element) all_incorrect_answers
      in if all_incorrect_answers < min_incorrect \<or> all_incorrect_answers < max_incorrect
         then Inl (ConfigError ''min-incorrect or max-incorrect exceeds the incorrect answers'')
         else if max_incorrect < min_incorrect
         then Inl (ConfigError ''min-incorrect must be smaller than max-incorrect'')
         else
           (let incorrect_answers_count = randint env min_incorrect max_incorrect
            in if incorrect_answers_count < 0 \<or> all_incorrect_answers < incorrect_answers_count
               then Inl ValueError
               else
                 (let sampled_incorrect_answers =
                        sample env (incorrect_acc st) (nat incorrect_answers_count);
                      all_blocks = correct_acc st @ sampled_incorrect_answers
                  in Inr (case get_attrib (source_blocks_order_attr element)
                                 SOURCE_BLOCKS_ORDER_DEFAULT of
                            SRC_RANDOM \<Rightarrow> shuffle env all_blocks
                          | SRC_ORDERED \<Rightarrow> sort_key index all_blocks
                          | SRC_ALPHABETIZED \<Rightarrow> sort_key inner_html all_blocks))))"

text \<open>
  Lines 372-381. Every block made by \<^verbatim>\<open>prepare_tag\<close> has a tag; the set called
  \<^verbatim>\<open>correct_tags\<close> is taken over all blocks, distractors included. An empty
  \<^verbatim>\<open>distractor_for\<close> is falsy and is left out.
\<close>

definition correct_tags :: "OrderBlocksAnswerData list \<Rightarrow> string set" where
  "correct_tags all_blocks =
     set (concat (map (\<lambda>block. case tag block of Some (Some t) \<Rightarrow> [t] | _ \<Rightarrow> []) all_blocks))"

definition incorrect_tags :: "OrderBlocksAnswerData list \<Rightarrow> string set" where
  "incorrect_tags all_blocks =
     set (concat (map (\<lambda>block. case distractor_for block of
                                  Some d \<Rightarrow> if d \<noteq> [] then [d] else []
                                | None \<Rightarrow> [])
                      all_blocks))"

text \<open>
  Lines 383-400. The loop only writes \<^verbatim>\<open>distractor_bin\<close>, so it may read the blocks as
  they were before it. The dictionaries of \<^verbatim>\<open>all_blocks\<close> are those of
  \<^verbatim>\<open>correct_answers\<close>: a block is the dictionary with its \<^verbatim>\<open>index\<close>, and an assignment
  shows in both lists.
\<close>

definition set_bin ::
  "OrderBlocksAnswerData \<Rightarrow> string \<Rightarrow> OrderBlocksAnswerData list \<Rightarrow> OrderBlocksAnswerData list" where
  "set_bin block bin blocks =
     map (\<lambda>b. if index b = index block
                  \<or> (case tag block of
                        Some (Some t) \<Rightarrow> distractor_for b = Some t
                      | _ \<Rightarrow> False)
               then b\<lparr>distractor_bin := Some bin\<rparr> else b)
         blocks"

fun assign_bins ::
  "pl_env \<Rightarrow> OrderBlocksAnswerData list
     \<Rightarrow> OrderBlocksAnswerData list \<times> OrderBlocksAnswerData list \<times> nat
     \<Rightarrow> OrderBlocksAnswerData list \<times> OrderBlocksAnswerData list \<times> nat" where
  "assign_bins env [] acc = acc"
| "assign_bins env (block # rest) (all_blocks, correct, n) =
     (if distractor_for block \<noteq> None then assign_bins env rest (all_blocks, correct, n)
      else
        (let distractors =
               [block2 \<leftarrow> all_blocks.
                  (case tag block of
                     Some (Some t) \<Rightarrow> distractor_for block2 = Some t
                   | _ \<Rightarrow> False)]
         in if length distractors = 0 then assign_bins env rest (all_blocks, correct, n)
            else assign_bins env rest
                   (set_bin block (get_uuid env n) all_blocks,
                    set_bin block (get_uuid env n) correct, Suc n)))"

text \<open>
  The self-check writes through the same dictionaries: what the indentation gate assigns
  into the submitted blocks shows in the block of the same \<^verbatim>\<open>index\<close> of
  \<^verbatim>\<open>all_blocks\<close>.
\<close>

definition sync_by_index ::
  "OrderBlocksAnswerData list \<Rightarrow> OrderBlocksAnswerData list \<Rightarrow> OrderBlocksAnswerData list" where
  "sync_by_index mutated blocks =
     map (\<lambda>b. case find (\<lambda>m. index m = index b) mutated of None \<Rightarrow> b | Some m \<Rightarrow> m) blocks"

text \<open>
  \<^verbatim>\<open>prepare\<close>, lines 137-414. \<^verbatim>\<open>data_copy\<close> is a deep copy whose submitted answers are
  the correct answers themselves.
\<close>

definition prepare ::
  "pl_env \<Rightarrow> dag_checker \<Rightarrow> pl_attribs \<Rightarrow> html list \<Rightarrow> QuestionData
     \<Rightarrow> py_error + QuestionData" where
  "prepare env chk element children data =
     (case collect_blocks env element children of
        Inl e \<Rightarrow> Inl e
      | Inr st \<Rightarrow>
          (case sample_blocks env element st of
             Inl e \<Rightarrow> Inl e
           | Inr all_blocks0 \<Rightarrow>
               if \<not> incorrect_tags all_blocks0 \<subseteq> correct_tags all_blocks0 then Inl ValueError
               else
                 (let answer_name = answers_name element;
                      grading_method =
                        get_attrib (grading_method_attr element) GRADING_METHOD_DEFAULT;
                      (all_blocks, correct, n) =
                        assign_bins env all_blocks0 (all_blocks0, correct_acc st, uuid_count st);
                      data1 = data\<lparr>params := (params data)(answer_name \<mapsto> all_blocks),
                                   correct_answers :=
                                     (correct_answers data)(answer_name \<mapsto> correct)\<rparr>;
                      data_copy = data1\<lparr>submitted_answers := [answer_name \<mapsto> correct],
                                        partial_scores := Map.empty\<rparr>
                  in case grade chk element data_copy of
                       Inl e \<Rightarrow> Inl e
                     | Inr graded \<Rightarrow>
                         (case partial_scores graded answer_name of
                            None \<Rightarrow> Inl KeyError
                          | Some ps \<Rightarrow>
                              (let mutated = (case submitted_answers graded answer_name of
                                                None \<Rightarrow> correct
                                              | Some gated \<Rightarrow> gated);
                                   data2 = data1\<lparr>params := (params data1)(answer_name \<mapsto>
                                                    sync_by_index mutated all_blocks),
                                                correct_answers :=
                                                  (correct_answers data1)(answer_name \<mapsto> mutated)\<rparr>
                               in if score ps \<noteq> 1
                                  then (case solve_problem chk mutated grading_method of
                                          Inl e \<Rightarrow> Inl e
                                        | Inr solved \<Rightarrow>
                                            Inr (data2\<lparr>correct_answers :=
                                                   (correct_answers data2)(answer_name \<mapsto> solved)\<rparr>))
                                  else Inr data2)))))"

section \<open>Observations and notions of the specification\<close>

text \<open>The score that \<^verbatim>\<open>grade\<close> stores for the element's answer name.\<close>

definition grade_score :: "dag_checker \<Rightarrow> pl_attribs \<Rightarrow> QuestionData \<Rightarrow> py_error + rat" where
  "grade_score chk element data =
     (case grade chk element data of
        Inl e \<Rightarrow> Inl e
      | Inr data' \<Rightarrow>
          (case partial_scores data' (answers_name element) of
             None \<Rightarrow> Inl KeyError
           | Some ps \<Rightarrow> Inr (score ps)))"


text \<open>Exchanging the elements at positions \<open>i\<close> and \<open>i + 1\<close>.\<close>

definition transpose_adjacent :: "nat \<Rightarrow> 'a list \<Rightarrow> 'a list" where
  "transpose_adjacent i xs = xs[i := xs ! Suc i, Suc i := xs ! i]"

text \<open>
  The spec's words for the rank normaliser (4.2): "the previous distinct rank value
  encountered when fragments are listed in ascending rank order", and the tags of the
  fragments of that rank.
\<close>

definition previous_rank :: "OrderBlocksAnswerData list \<Rightarrow> int \<Rightarrow> int option" where
  "previous_rank answers r =
     (case filter (\<lambda>q. q < r) (map ranking (sort_key ranking answers)) of
        [] \<Rightarrow> None
      | q # qs \<Rightarrow> Some (last (q # qs)))"

definition rank_depends :: "OrderBlocksAnswerData list \<Rightarrow> int \<Rightarrow> node list" where
  "rank_depends answers r =
     (case previous_rank answers r of
        None \<Rightarrow> []
      | Some p \<Rightarrow> List.map_filter tag [b \<leftarrow> sort_key ranking answers. ranking b = p])"




text \<open>
  The invariant of the loop over the children that keeps the uuids of the correct
  answers apart: they are uuids number \<open>k\<close>, for distinct \<open>k\<close> below the count.
\<close>

definition uuids_fresh :: "pl_env \<Rightarrow> prep_state \<Rightarrow> bool" where
  "uuids_fresh env st =
     (\<exists>ks. map uuid (correct_acc st) = map (get_uuid env) ks \<and> distinct ks
          \<and> (\<forall>k \<in> set ks. k < uuid_count st))"

section \<open>Example inputs\<close>

text \<open>
  Example inputs: a block as the client submits it (\<^verbatim>\<open>inner_html\<close>, \<^verbatim>\<open>indent\<close>,
  \<^verbatim>\<open>uuid\<close>), a correct answer as \<^verbatim>\<open>prepare\<close> stores it, an element with its
  attributes, question data with one answer name, and two instances of the checker:
  one that is never called (it raises) and one that reports given numbers.
\<close>

definition no_group :: GroupInfo where
  "no_group = \<lparr>gtag = None, gdepends = None\<rparr>"

definition submitted_block :: "string \<Rightarrow> string \<Rightarrow> int option \<Rightarrow> OrderBlocksAnswerData" where
  "submitted_block u h i =
     \<lparr>inner_html = Some h, indent = i, ranking = - 1, index = 0, tag = None,
      distractor_for = None, depends = [], group_info = no_group, distractor_bin = None,
      uuid = u\<rparr>"

definition answer_block ::
  "string \<Rightarrow> string \<Rightarrow> int option \<Rightarrow> string \<Rightarrow> int \<Rightarrow> string list \<Rightarrow> OrderBlocksAnswerData" where
  "answer_block u h i t r d =
     \<lparr>inner_html = Some h, indent = i, ranking = r, index = 0, tag = Some (Some t),
      distractor_for = None, depends = d, group_info = no_group, distractor_bin = None,
      uuid = u\<rparr>"

definition unused_checker :: dag_checker where
  "unused_checker =
     \<lparr>grade_dag = (\<lambda>submission depends_graph group_belonging. Inl (CheckerError ''unused'')),
      lcs_partial_credit = (\<lambda>submission depends_graph group_belonging. Inl (CheckerError ''unused'')),
      solve_dag = (\<lambda>depends_graph group_belonging. Inl (CheckerError ''unused''))\<rparr>"

definition fixed_checker :: "int \<Rightarrow> int \<Rightarrow> int \<Rightarrow> dag_checker" where
  "fixed_checker n l ed =
     \<lparr>grade_dag = (\<lambda>submission depends_graph group_belonging. Inr (n, l)),
      lcs_partial_credit = (\<lambda>submission depends_graph group_belonging. Inr ed),
      solve_dag = (\<lambda>depends_graph group_belonging. Inl (CheckerError ''unused''))\<rparr>"

definition order_blocks ::
  "string \<Rightarrow> GradingMethodType \<Rightarrow> bool \<Rightarrow> PartialCreditType option \<Rightarrow> FeedbackType option
     \<Rightarrow> pl_attribs" where
  "order_blocks name m ci pc fb =
     \<lparr>answers_name = name, source_blocks_order_attr = None, grading_method_attr = Some m,
      indentation_attr = Some ci, max_incorrect_attr = None, min_incorrect_attr = None,
      weight_attr = None, feedback_attr = fb, partial_credit_attr = pc,
      format_attr = None, code_language_attr = None\<rparr>"

definition question_data ::
  "string \<Rightarrow> OrderBlocksAnswerData list \<Rightarrow> OrderBlocksAnswerData list \<Rightarrow> QuestionData" where
  "question_data name cs sa =
     \<lparr>params = Map.empty, correct_answers = [name \<mapsto> cs],
      submitted_answers = [name \<mapsto> sa], partial_scores = Map.empty\<rparr>"

definition ex_correct3 :: "OrderBlocksAnswerData list" where
  "ex_correct3 =
     [answer_block ''u1'' ''a = 1'' None ''t1'' 1 [],
      answer_block ''u2'' ''b = 2'' None ''t2'' 2 [''t1''],
      answer_block ''u3'' ''c = 3'' None ''t3'' 2 [''t1'']]"

definition ex_same_content :: "OrderBlocksAnswerData list" where
  "ex_same_content =
     [answer_block ''u1'' ''x += 1'' None ''t1'' 1 [],
      answer_block ''u2'' ''x += 1'' None ''t2'' 2 []]"

definition parsed_block ::
  "string \<Rightarrow> string \<Rightarrow> int option \<Rightarrow> string option \<Rightarrow> OrderBlocksAnswerData" where
  "parsed_block u h i t = (submitted_block u h i)\<lparr>tag := Some t\<rparr>"

definition ex_missing_first :: "OrderBlocksAnswerData list" where
  "ex_missing_first =
     [parsed_block ''u2'' ''b = 2'' None (Some ''t2''),
      parsed_block ''u3'' ''c = 3'' None (Some ''t3'')]"

text \<open>
  Example inputs for \<^verbatim>\<open>prepare\<close>: an environment whose attribute check passes exactly
  when every attribute present is allowed, whose uuids are pairwise distinct and whose
  random choices are the largest count, the first blocks and no reordering; and
  \<^verbatim>\<open><pl-answer>\<close> elements.
\<close>

definition present_attribs :: "answer_attribs \<Rightarrow> string list" where
  "present_attribs attrs =
     (if correct_attr attrs \<noteq> None then [''correct''] else [])
     @ (if indent_attr attrs \<noteq> None then [''indent''] else [])
     @ (if ranking_attr attrs \<noteq> None then [''ranking''] else [])
     @ (if tag_attr attrs \<noteq> None then [''tag''] else [])
     @ (if depends_attr attrs \<noteq> None then [''depends''] else [])
     @ (if distractor_for_attr attrs \<noteq> None then [''distractor-for''] else [])"

definition example_env :: pl_env where
  "example_env =
     \<lparr>check_element = (\<lambda>element. True),
      check_answers_names = (\<lambda>name. True),
      check_attribs = (\<lambda>html_tags required optional.
         case html_tags of
           Comment \<Rightarrow> True
         | Element name attrs inner kids \<Rightarrow>
             set (present_attribs attrs) \<subseteq> set (required @ optional)),
      get_uuid = (\<lambda>n. CHR ''u'' # replicate n (CHR ''x'')),
      randint = (\<lambda>a b. b),
      sample = (\<lambda>population k. take k population),
      shuffle = (\<lambda>blocks. blocks)\<rparr>"

definition pl_answer ::
  "bool option \<Rightarrow> string option \<Rightarrow> int option \<Rightarrow> string option \<Rightarrow> string \<Rightarrow> html" where
  "pl_answer c t r d inner =
     Element ''pl-answer''
       \<lparr>correct_attr = c, indent_attr = None, ranking_attr = r, tag_attr = t,
        depends_attr = None, distractor_for_attr = d\<rparr> inner []"

definition empty_data :: QuestionData where
  "empty_data =
     \<lparr>params = Map.empty, correct_answers = Map.empty, submitted_answers = Map.empty,
      partial_scores = Map.empty\<rparr>"





definition ex_refers_to_distractor :: "html list" where
  "ex_refers_to_distractor =
     [pl_answer None (Some ''a'') (Some 1) None ''x = 1'',
      pl_answer (Some False) (Some ''b'') None None ''x = 2'',
      pl_answer (Some False) (Some ''c'') None (Some ''b'') ''x = 3'']"

section \<open>Dictionaries and the indentation gate\<close>

lemma update_fresh: "k \<notin> fst ` set d \<Longrightarrow> AList.update k v d = d @ [(k, v)]"
  by (induction d) auto

lemma foldl_update_distinct:
  "distinct (map fst (d @ kvs)) \<Longrightarrow> foldl (\<lambda>d (k, v). AList.update k v d) d kvs = d @ kvs"
proof (induction kvs arbitrary: d)
  case Nil
  then show ?case by simp
next
  case (Cons kv kvs)
  obtain k v where kv: "kv = (k, v)" by (cases kv)
  have "k \<notin> fst ` set d" using Cons.prems kv by auto
  then have "AList.update k v d = d @ [(k, v)]" by (rule update_fresh)
  moreover have "distinct (map fst ((d @ [(k, v)]) @ kvs))" using Cons.prems kv by simp
  ultimately show ?case using Cons.IH [of "d @ [(k, v)]"] kv by simp
qed

lemma dict_of_distinct: "distinct (map fst kvs) \<Longrightarrow> dict_of kvs = kvs"
  using foldl_update_distinct [of "[]" kvs] by (simp add: dict_of_def)

lemma map_of_foldl_update:
  "map_of (foldl (\<lambda>d (k, v). AList.update k v d) d kvs) = map_of d ++ map_of (rev kvs)"
proof (induction kvs arbitrary: d)
  case Nil
  then show ?case by simp
next
  case (Cons kv kvs)
  obtain k v where kv: "kv = (k, v)" by (cases kv)
  show ?case
    by (simp add: kv Cons.IH AList.update_conv' map_add_upd_left fun_eq_iff map_add_def split: option.splits)
qed

lemma map_of_dict_of: "map_of (dict_of kvs) = map_of (rev kvs)"
  by (simp add: dict_of_def map_of_foldl_update)

lemma indentations_lookup:
  assumes "distinct (map uuid cs)" and "c \<in> set cs"
  shows "dict_get (indentations cs) (uuid c) = indent c"
proof -
  have d: "distinct (map fst (map (\<lambda>ans. (uuid ans, indent ans)) cs))"
    using assms(1) by (simp add: comp_def)
  have "map_of (map (\<lambda>ans. (uuid ans, indent ans)) cs) (uuid c) = Some (indent c)"
    using d assms(2) by (intro map_of_is_SomeI) auto
  then show ?thesis
    by (simp add: indentations_def dict_of_distinct [OF d] dict_get_def)
qed

lemma uuid_gate_block [simp]: "uuid (gate_block inds ans) = uuid ans"
  by (simp add: gate_block_def Let_def)

lemma map_uuid_gate [simp]: "map uuid (indentation_gate ci cs sa) = map uuid sa"
  by (simp add: indentation_gate_def comp_def)

lemma length_gate [simp]: "length (indentation_gate ci cs sa) = length sa"
  by (simp add: indentation_gate_def)

lemma unordered_score_uuid:
  "map uuid sa = map uuid sb \<Longrightarrow> unordered_score cs sa = unordered_score cs sb"
proof -
  assume h: "map uuid sa = map uuid sb"
  then have "length sa = length sb" by (metis length_map)
  with h show ?thesis by (simp add: unordered_score_def)
qed

section \<open>Floating point\<close>

lemma round_half_even_of_int [simp]: "round_half_even (of_int n) = n"
  by (simp add: round_half_even_def)

lemma round_half_even_ge: "of_int m \<le> y \<Longrightarrow> m \<le> round_half_even y"
proof -
  assume "of_int m \<le> y"
  then have "m \<le> \<lfloor>y\<rfloor>" by (simp add: le_floor_iff)
  then show ?thesis by (simp add: round_half_even_def Let_def)
qed

lemma round_half_even_le: "y \<le> of_int m \<Longrightarrow> round_half_even y \<le> m"
proof (cases "y = of_int m")
  case True
  then show ?thesis by simp
next
  case False
  assume "y \<le> of_int m"
  with False have "y < of_int m" by simp
  then have "\<lfloor>y\<rfloor> < m" by (simp add: floor_less_iff)
  then show ?thesis by (simp add: round_half_even_def Let_def)
qed

lemma round_half_even_error: "\<bar>of_int (round_half_even y) - y\<bar> \<le> 1 / 2"
proof -
  define f where "f = \<lfloor>y\<rfloor>"
  have a: "of_int f \<le> y" and b: "y < of_int f + 1" unfolding f_def by linarith+
  have r: "round_half_even y = (if y - of_int f < 1 / 2 then f else if 1 / 2 < y - of_int f then f + 1
                   else if even f then f else f + 1)"
    by (simp add: round_half_even_def Let_def f_def)
  consider "y - of_int f < 1 / 2" | "1 / 2 < y - of_int f" | "y - of_int f = 1 / 2"
    by linarith
  then show ?thesis
  proof cases
    case 1
    then have "round_half_even y = f" by (simp add: r)
    then show ?thesis using a 1 by simp
  next
    case 2
    then have "round_half_even y = f + 1" by (simp add: r)
    then show ?thesis using b 2 by simp
  next
    case 3
    then have "round_half_even y = f \<or> round_half_even y = f + 1" by (simp add: r)
    then show ?thesis using 3 by auto
  qed
qed

lemma round_half_even_minus: "round_half_even (- y) = - round_half_even y"
proof (cases "y = of_int \<lfloor>y\<rfloor>")
  case True
  then obtain n where "y = of_int n" ..
  then have "- y = of_int (- n)" by simp
  then show ?thesis using \<open>y = of_int n\<close> by (simp only: round_half_even_of_int)
next
  case False
  then have y: "y \<notin> \<int>" by (metis Ints_cases of_int_floor_cancel)
  have fl: "\<lfloor>- y\<rfloor> = - \<lfloor>y\<rfloor> - 1"
    using y by (simp add: floor_minus ceiling_altdef False)
  have frac: "of_int \<lfloor>y\<rfloor> < y" using False by (metis less_eq_rat_def of_int_floor_le)
  show ?thesis
    unfolding round_half_even_def Let_def fl using frac
    by (auto simp: field_simps)
qed

lemma binade_bounds:
  assumes "x \<noteq> 0"
  shows "2 powi binade x \<le> \<bar>x\<bar>" and "\<bar>x\<bar> < 2 powi (binade x + 1)"
proof -
  obtain p q where pq: "quotient_of \<bar>x\<bar> = (p, q)" by (cases "quotient_of \<bar>x\<bar>")
  have q: "0 < q" using quotient_of_denom_pos [OF pq] .
  have x: "\<bar>x\<bar> = of_int p / of_int q" using quotient_of_div [OF pq] .
  have "0 < \<bar>x\<bar>" using assms by simp
  then have p: "0 < p" using q x by (simp add: zero_less_divide_iff)
  define bp where "bp = bitlen p"
  define bq where "bq = bitlen q"
  have bp: "2 ^ nat (bp - 1) \<le> p" "p < 2 ^ nat bp" and bp1: "1 \<le> bp"
    using bitlen_bounds [OF p] p bitlen_eq_zero_iff [of p] bitlen_nonneg [of p]
    by (auto simp: bp_def)
  have bq: "2 ^ nat (bq - 1) \<le> q" "q < 2 ^ nat bq" and bq1: "1 \<le> bq"
    using bitlen_bounds [OF q] q bitlen_eq_zero_iff [of q] bitlen_nonneg [of q]
    by (auto simp: bq_def)
  have P1: "(2::rat) powi (bp - 1) \<le> of_int p"
  proof -
    have "(of_int (2 ^ nat (bp - 1)) :: rat) \<le> of_int p" using bp(1) by (simp only: of_int_le_iff)
    then show ?thesis using bp1 by (simp add: power_int_def)
  qed
  have P2: "of_int p < (2::rat) powi bp"
  proof -
    have "(of_int p :: rat) < of_int (2 ^ nat bp)" using bp(2) by (simp only: of_int_less_iff)
    then show ?thesis using bp1 by (simp add: power_int_def)
  qed
  have Q1: "(2::rat) powi (bq - 1) \<le> of_int q"
  proof -
    have "(of_int (2 ^ nat (bq - 1)) :: rat) \<le> of_int q" using bq(1) by (simp only: of_int_le_iff)
    then show ?thesis using bq1 by (simp add: power_int_def)
  qed
  have Q2: "of_int q < (2::rat) powi bq"
  proof -
    have "(of_int q :: rat) < of_int (2 ^ nat bq)" using bq(2) by (simp only: of_int_less_iff)
    then show ?thesis using bq1 by (simp add: power_int_def)
  qed
  have qpos: "(0::rat) < of_int q" using q by simp
  have lo: "(2::rat) powi (bp - bq - 1) \<le> \<bar>x\<bar>"
  proof -
    have "(2::rat) powi (bp - bq - 1) * of_int q \<le> 2 powi (bp - bq - 1) * 2 powi bq"
      using Q2 by (simp add: mult_left_mono)
    also have "\<dots> = 2 powi (bp - 1)"
      by (simp add: power_int_add [symmetric])
    also have "\<dots> \<le> of_int p" by (rule P1)
    finally show ?thesis using qpos by (simp add: x pos_le_divide_eq)
  qed
  have hi: "\<bar>x\<bar> < (2::rat) powi (bp - bq + 1)"
  proof -
    have "(of_int p :: rat) < 2 powi bp" by (rule P2)
    also have "\<dots> = 2 powi (bp - bq + 1) * 2 powi (bq - 1)"
      by (simp add: power_int_add [symmetric])
    also have "\<dots> \<le> 2 powi (bp - bq + 1) * of_int q"
      using Q1 by (simp add: mult_left_mono)
    finally show ?thesis using qpos by (simp add: x pos_divide_less_eq)
  qed
  have b: "binade x = (if 2 powi (bp - bq) \<le> \<bar>x\<bar> then bp - bq else bp - bq - 1)"
    by (simp add: binade_def pq bp_def bq_def Let_def)
  show "2 powi binade x \<le> \<bar>x\<bar>" using lo by (simp add: b)
  show "\<bar>x\<bar> < 2 powi (binade x + 1)" using hi by (auto simp: b not_le)
qed

lemma binade_minus [simp]: "binade (- x) = binade x"
  by (simp add: binade_def)

lemma py_float_minus: "py_float (- x) = - py_float x"
  by (simp add: py_float_def Let_def round_half_even_minus)

lemma ulp_pos: "(0::rat) < 2 powi k"
  by (simp add: zero_less_power_int)

lemma py_float_bounds:
  assumes "0 < x"
  shows "2 powi binade x \<le> py_float x" and "py_float x \<le> 2 powi (binade x + 1)"
proof -
  define u :: rat where "u = 2 powi (binade x - 52)"
  have u: "0 < u" by (simp add: u_def ulp_pos)
  have x0: "x \<noteq> 0" using assms by simp
  have f: "py_float x = of_int (round_half_even (x / u)) * u"
    using x0 by (simp add: py_float_def u_def Let_def)
  have e1: "(2::rat) powi binade x = 2 ^ 52 * u"
    by (simp add: u_def power_int_diff)
  have e2: "(2::rat) powi (binade x + 1) = 2 ^ 53 * u"
    by (simp add: u_def power_int_diff power_int_add)
  have "2 ^ 52 * u \<le> x" using binade_bounds(1) [OF x0] assms by (simp add: e1)
  then have "of_int (2 ^ 52) \<le> x / u" using u by (simp add: pos_le_divide_eq)
  then have "(2 ^ 52 :: int) \<le> round_half_even (x / u)" by (rule round_half_even_ge)
  then have "(of_int (2 ^ 52) :: rat) \<le> of_int (round_half_even (x / u))"
    by (simp only: of_int_le_iff)
  then have "2 ^ 52 * u \<le> of_int (round_half_even (x / u)) * u"
    using u by (simp add: mult_right_mono)
  then show "2 powi binade x \<le> py_float x" by (simp add: f e1)
  have "x < 2 ^ 53 * u" using binade_bounds(2) [OF x0] assms by (simp add: e2)
  then have "x / u \<le> of_int (2 ^ 53)" using u by (simp add: pos_divide_le_eq)
  then have "round_half_even (x / u) \<le> (2 ^ 53 :: int)" by (rule round_half_even_le)
  then have "(of_int (round_half_even (x / u)) :: rat) \<le> of_int (2 ^ 53)"
    by (simp only: of_int_le_iff)
  then have "of_int (round_half_even (x / u)) * u \<le> 2 ^ 53 * u"
    using u by (simp add: mult_right_mono)
  then show "py_float x \<le> 2 powi (binade x + 1)" by (simp add: f e2)
qed

lemma py_float_0 [simp]: "py_float 0 = 0"
  by (simp add: py_float_def)

lemma py_float_pos: "0 < x \<Longrightarrow> 0 < py_float x"
  using py_float_bounds(1) [of x] ulp_pos [of "binade x"] by (rule_tac less_le_trans) auto

lemma py_float_neg: "x < 0 \<Longrightarrow> py_float x < 0"
  using py_float_pos [of "- x"] by (simp add: py_float_minus)

lemma py_float_eq_0_iff [simp]: "(py_float x = 0) = (x = 0)"
  using py_float_pos [of x] py_float_neg [of x] by (cases "x = 0"; cases "0 < x") auto

lemma py_float_error: "\<bar>py_float x - x\<bar> \<le> \<bar>x\<bar> / 2 ^ 53"
proof (cases "x = 0")
  case True
  then show ?thesis by simp
next
  case False
  define u :: rat where "u = 2 powi (binade x - 52)"
  have u: "0 < u" by (simp add: u_def ulp_pos)
  have f: "py_float x = of_int (round_half_even (x / u)) * u"
    using False by (simp add: py_float_def u_def Let_def)
  have e1: "(2::rat) powi binade x = 2 ^ 52 * u"
    by (simp add: u_def power_int_diff)
  have "py_float x - x = (of_int (round_half_even (x / u)) - x / u) * u"
    using u by (simp add: f field_simps)
  then have "\<bar>py_float x - x\<bar> = \<bar>of_int (round_half_even (x / u)) - x / u\<bar> * u"
    using u by (simp add: abs_mult)
  also have "\<dots> \<le> 1 / 2 * u"
    using round_half_even_error [of "x / u"] u by (simp add: mult_right_mono)
  also have "\<dots> = 2 ^ 52 * u / 2 ^ 53" by simp
  also have "\<dots> \<le> \<bar>x\<bar> / 2 ^ 53"
    using binade_bounds(1) [OF False] by (simp add: e1 divide_right_mono)
  finally show ?thesis .
qed

lemma py_float_of_int:
  assumes "\<bar>n\<bar> < 2 ^ 53"
  shows "py_float (of_int n) = of_int n"
proof (cases "n = 0")
  case True
  then show ?thesis by simp
next
  case False
  define x :: rat where "x = of_int n"
  have x0: "x \<noteq> 0" using False by (simp add: x_def)
  have "\<bar>x\<bar> < 2 powi 53"
  proof -
    have "(of_int \<bar>n\<bar> :: rat) < of_int (2 ^ 53)" using assms by (simp only: of_int_less_iff)
    then show ?thesis by (simp add: x_def)
  qed
  with binade_bounds(1) [OF x0] have lt: "(2::rat) powi binade x < 2 powi 53" by (rule le_less_trans)
  have "binade x < 53"
  proof (rule ccontr)
    assume "\<not> binade x < 53"
    then have "53 \<le> binade x" by simp
    then have "(2::rat) powi 53 \<le> 2 powi binade x" by (intro power_int_increasing) simp_all
    with lt show False by simp
  qed
  then obtain k :: nat where k: "52 - binade x = int k"
    using nonneg_int_cases [of "52 - binade x"] by auto
  then have e: "binade x - 52 = - int k" by simp
  have "x / 2 powi (binade x - 52) = of_int (n * 2 ^ k)"
    unfolding e by (simp add: x_def power_int_minus field_simps)
  then have "py_float x = of_int (n * 2 ^ k) * 2 powi (binade x - 52)"
    using x0 by (simp only: py_float_def Let_def round_half_even_of_int if_False)
  also have "\<dots> = x"
    unfolding e by (simp add: x_def power_int_minus field_simps)
  finally show ?thesis by (simp add: x_def)
qed

lemma py_float_1 [simp]: "py_float 1 = 1"
  using py_float_of_int [of 1] by simp

lemma py_fdiv_0 [simp]: "py_fdiv 0 b = 0"
  by (simp add: py_fdiv_def)

lemma py_fdiv_self: "n \<noteq> 0 \<Longrightarrow> py_fdiv n n = 1"
  by (simp add: py_fdiv_def)

lemma py_fdiv_neg: "a < 0 \<Longrightarrow> 0 < b \<Longrightarrow> py_fdiv a b < 0"
proof -
  assume a: "a < 0" and b: "0 < b"
  have "py_float (of_int a) < 0" using a by (intro py_float_neg) simp
  moreover have "0 < py_float (of_int b)" using b by (intro py_float_pos) simp
  ultimately have "py_float (of_int a) / py_float (of_int b) < 0"
    by (simp add: divide_neg_pos)
  then show ?thesis unfolding py_fdiv_def by (rule py_float_neg)
qed

lemma py_float_lt_1:
  assumes "0 < x" and "x < 1 - 1 / 2 ^ 53"
  shows "py_float x < 1"
proof -
  have x0: "x \<noteq> 0" using assms by simp
  have "x < 1" using assms(2) by (rule less_trans) simp
  with binade_bounds(1) [OF x0] assms(1) have "(2::rat) powi binade x < 2 powi 0" by simp
  then have neg: "binade x < 0"
  proof -
    have "\<not> 0 \<le> binade x"
    proof
      assume "0 \<le> binade x"
      then have "(2::rat) powi 0 \<le> 2 powi binade x" by (intro power_int_increasing) simp_all
      with \<open>(2::rat) powi binade x < 2 powi 0\<close> show False by simp
    qed
    then show ?thesis by simp
  qed
  show ?thesis
  proof (cases "binade x = - 1")
    case True
    have u: "(2::rat) powi (binade x - 52) = 1 / 2 ^ 53"
      by (simp add: True power_int_minus field_simps)
    have "x * 2 ^ 53 < 2 ^ 53 - 1" using assms(2) by (simp add: field_simps)
    then have "x / (1 / 2 ^ 53) \<le> of_int (2 ^ 53 - 1)" by simp
    then have "round_half_even (x / (1 / 2 ^ 53)) \<le> 2 ^ 53 - 1" by (rule round_half_even_le)
    then have "(of_int (round_half_even (x / (1 / 2 ^ 53))) :: rat) \<le> of_int (2 ^ 53 - 1)"
      by (simp only: of_int_le_iff)
    then have "(of_int (round_half_even (x / (1 / 2 ^ 53))) :: rat) * (1 / 2 ^ 53)
                 \<le> of_int (2 ^ 53 - 1) * (1 / 2 ^ 53)"
      by (intro mult_right_mono) simp_all
    also have "\<dots> < 1" by simp
    finally show ?thesis using x0 by (simp only: py_float_def Let_def u if_False)
  next
    case False
    with neg have "binade x + 1 \<le> - 1" by simp
    then have "(2::rat) powi (binade x + 1) \<le> 2 powi (- 1)" by (intro power_int_increasing) simp_all
    with py_float_bounds(2) [OF assms(1)] have "py_float x \<le> 2 powi (- 1)" by (rule order_trans)
    also have "\<dots> < 1" by (simp add: power_int_minus)
    finally show ?thesis .
  qed
qed

lemma py_fdiv_exact:
  "\<bar>a\<bar> < 2 ^ 53 \<Longrightarrow> \<bar>b\<bar> < 2 ^ 53 \<Longrightarrow> py_fdiv a b = py_float (of_int a / of_int b)"
  by (simp add: py_fdiv_def py_float_of_int)

lemma py_fdiv_lt_1:
  assumes "0 \<le> a" and "a < b" and "b < 2 ^ 53"
  shows "py_fdiv a b < 1"
proof (cases "a = 0")
  case True
  then show ?thesis by simp
next
  case False
  have b: "(0::rat) < of_int b" using assms by simp
  have f: "py_fdiv a b = py_float (of_int a / of_int b)"
    using assms by (intro py_fdiv_exact) simp_all
  have "a \<le> b - 1" using assms(2) by simp
  then have "(of_int a :: rat) \<le> of_int (b - 1)" by (simp only: of_int_le_iff)
  then have "(of_int a :: rat) / of_int b \<le> of_int (b - 1) / of_int b"
    using b by (simp add: divide_right_mono)
  also have "\<dots> = 1 - 1 / of_int b" using b by (simp add: field_simps)
  also have "\<dots> < 1 - 1 / 2 ^ 53"
  proof -
    have "(of_int b :: rat) < of_int (2 ^ 53)" using assms(3) by (simp only: of_int_less_iff)
    then have "(1::rat) / of_int (2 ^ 53) < 1 / of_int b"
      using b by (intro divide_strict_left_mono) simp_all
    then show ?thesis by simp
  qed
  finally have lt: "(of_int a :: rat) / of_int b < 1 - 1 / 2 ^ 53" .
  have pos: "(0::rat) < of_int a / of_int b" using assms(1) False b by simp
  have "py_float (of_int a / of_int b) < 1" using pos lt by (rule py_float_lt_1)
  then show ?thesis by (simp only: f)
qed

lemma py_float_ge_1: "1 \<le> x \<Longrightarrow> 1 \<le> py_float x"
proof -
  assume x: "1 \<le> x"
  then have x0: "x \<noteq> 0" and xp: "0 < x" by simp_all
  have "\<not> binade x + 1 \<le> 0"
  proof
    assume "binade x + 1 \<le> 0"
    then have "(2::rat) powi (binade x + 1) \<le> 2 powi 0" by (intro power_int_increasing) simp_all
    with binade_bounds(2) [OF x0] x show False by simp
  qed
  then have "0 \<le> binade x" by simp
  then have "(2::rat) powi 0 \<le> 2 powi binade x" by (intro power_int_increasing) simp_all
  with py_float_bounds(1) [OF xp] show ?thesis by simp
qed

lemma py_round2_0 [simp]: "py_round2 0 = 0"
  using round_half_even_of_int [of 0] by (simp add: py_round2_def)

lemma py_round2_1 [simp]: "py_round2 1 = 1"
  using round_half_even_of_int [of 100] by (simp add: py_round2_def)

lemma py_round2_ge1: "1 \<le> x \<Longrightarrow> 1 \<le> py_round2 x"
proof -
  assume "1 \<le> x"
  then have "of_int 100 \<le> x * 100" by simp
  then have "100 \<le> round_half_even (x * 100)" by (rule round_half_even_ge)
  then have "(of_int 100 :: rat) \<le> of_int (round_half_even (x * 100))"
    by (simp only: of_int_le_iff)
  then have "1 \<le> (of_int (round_half_even (x * 100)) :: rat) / 100" by simp
  then show ?thesis unfolding py_round2_def by (rule py_float_ge_1)
qed

section \<open>The indentation gate on a submission\<close>

lemma tags_of_nth:
  "tags_of xs = Inr ts \<Longrightarrow> length ts = length xs \<and> (\<forall>i < length xs. tag (xs ! i) = Some (ts ! i))"
proof (induction xs arbitrary: ts)
  case Nil
  then show ?case by simp
next
  case (Cons x xs)
  then show ?case
    by (auto split: option.splits sum.splits simp: nth_Cons split: nat.splits)
qed

text \<open>
  Claim C7. With indentation checking on, a submitted block whose correct fragment (the
  one with its uuid) records an indent other than \<open>-1\<close> and whose own indent differs
  has its tag set to \<^verbatim>\<open>None\<close>, or its content if it carries no tag key; a block whose
  recorded indent is \<open>-1\<close> or equals its own is unchanged. The gated list is what the
  policy dispatch reads, so a nulled tag reaches the DAG checker as \<^verbatim>\<open>None\<close>. With
  indentation checking off nothing changes.
\<close>

theorem indentation_gate_nulls:
  assumes "distinct (map uuid cs)" and "c \<in> set cs"
    and "i < length sa" and "uuid (sa ! i) = uuid c"
  shows "length (indentation_gate True cs sa) = length sa
    \<and> indentation_gate True cs sa ! i =
        (if indent c \<noteq> Some (- 1) \<and> indent (sa ! i) \<noteq> indent c
         then (if tag (sa ! i) \<noteq> None then (sa ! i)\<lparr>tag := Some None\<rparr>
               else (sa ! i)\<lparr>inner_html := None\<rparr>)
         else sa ! i)
    \<and> (indent c \<noteq> Some (- 1) \<and> indent (sa ! i) \<noteq> indent c \<and> tag (sa ! i) \<noteq> None
         \<longrightarrow> (\<forall>ts. tags_of (indentation_gate True cs sa) = Inr ts \<longrightarrow> ts ! i = None))
    \<and> indentation_gate False cs sa = sa"
proof -
  have look: "dict_get (indentations cs) (uuid (sa ! i)) = indent c"
    using assms(1,2,4) by (simp add: indentations_lookup)
  have nth: "indentation_gate True cs sa ! i = gate_block (indentations cs) (sa ! i)"
    using assms(3) by (simp add: indentation_gate_def)
  have main: "indentation_gate True cs sa ! i =
        (if indent c \<noteq> Some (- 1) \<and> indent (sa ! i) \<noteq> indent c
         then (if tag (sa ! i) \<noteq> None then (sa ! i)\<lparr>tag := Some None\<rparr>
               else (sa ! i)\<lparr>inner_html := None\<rparr>)
         else sa ! i)"
    unfolding nth by (simp add: gate_block_def look Let_def eq_commute)
  have dagnode: "ts ! i = None"
    if h: "indent c \<noteq> Some (- 1)" "indent (sa ! i) \<noteq> indent c" "tag (sa ! i) \<noteq> None"
      and t: "tags_of (indentation_gate True cs sa) = Inr ts" for ts
  proof -
    have "tag (indentation_gate True cs sa ! i) = Some (ts ! i)"
      using tags_of_nth [OF t] assms(3) by simp
    moreover have "tag (indentation_gate True cs sa ! i) = Some None"
      using main h by simp
    ultimately show ?thesis by simp
  qed
  show ?thesis
    using main dagnode by (simp add: indentation_gate_def)
qed

theorem indentation_gate_nulls_witness:
  "indentation_gate True [answer_block ''u1'' ''x = 1'' (Some 1) ''t1'' 0 []]
       [submitted_block ''u1'' ''x = 1'' (Some 0)] ! 0
     = (submitted_block ''u1'' ''x = 1'' (Some 0))\<lparr>inner_html := None\<rparr>"
  using indentation_gate_nulls [of "[answer_block ''u1'' ''x = 1'' (Some 1) ''t1'' 0 []]"
      "answer_block ''u1'' ''x = 1'' (Some 1) ''t1'' 0 []" 0
      "[submitted_block ''u1'' ''x = 1'' (Some 0)]"]
  by (simp add: answer_block_def submitted_block_def)

section \<open>The score of grade\<close>

lemma grade_score_eq:
  assumes "submitted_answers data (answers_name element) = Some sa"
    and "correct_answers data (answers_name element) = Some cs"
  shows "grade_score chk element data =
     (case dispatch chk (get_attrib (grading_method_attr element) GRADING_METHOD_DEFAULT)
             (get_attrib (partial_credit_attr element) LCS)
             (get_attrib (feedback_attr element) FEEDBACK_DEFAULT)
             (get_attrib (indentation_attr element) INDENTION_DEFAULT) cs
             (indentation_gate (get_attrib (indentation_attr element) INDENTION_DEFAULT) cs sa) of
        Inl e \<Rightarrow> Inl e
      | Inr (fs, fw, fb) \<Rightarrow> Inr (py_round2 fs))"
  using assms by (simp add: grade_score_def grade_def Let_def split: sum.splits prod.splits)

lemma unordered_score_general:
  "cs \<noteq> [] \<Longrightarrow> unordered_score cs sa =
     Inr (max 0 (py_fdiv (int (card (set (map uuid cs) \<inter> set (map uuid sa)))
                           - (int (length sa) - int (card (set (map uuid cs) \<inter> set (map uuid sa)))))
                         (int (length cs))))"
  by (simp add: unordered_score_def Let_def)

lemma card_diff_distinct:
  assumes "distinct xs"
  shows "int (card (set xs - C)) = int (length xs) - int (card (C \<inter> set xs))"
proof -
  have "card (set xs - C) = card (set xs) - card (set xs \<inter> C)"
    by (simp add: card_Diff_subset_Int)
  moreover have "card (set xs \<inter> C) \<le> card (set xs)"
    by (simp add: card_mono)
  moreover have "card (set xs) = length xs" using assms by (simp add: distinct_card)
  ultimately show ?thesis by (simp add: Int_commute)
qed

lemma unordered_one_iff:
  fixes C S :: "'a set"
  assumes "finite C" "finite S" "C \<noteq> {}" "int (card C) < 2 ^ 53"
  shows "(max 0 (py_fdiv (int (card (C \<inter> S)) - int (card (S - C))) (int (card C))) = 1)
           = (S = C)"
proof (cases "S = C")
  case True
  have "0 < card C" using assms by (simp add: card_gt_0_iff)
  then have "py_fdiv (int (card C)) (int (card C)) = 1" by (intro py_fdiv_self) simp
  then show ?thesis using True by simp
next
  case False
  define k where "k = int (card (C \<inter> S)) - int (card (S - C))"
  have pos: "0 < int (card C)" using assms by (simp add: card_gt_0_iff)
  have le: "card (C \<inter> S) \<le> card C" using assms by (simp add: card_mono)
  have "k \<noteq> int (card C)"
  proof
    assume "k = int (card C)"
    then have "card (C \<inter> S) = card C" and "card (S - C) = 0" using le by (auto simp: k_def)
    then have "C \<inter> S = C" and "S - C = {}" using assms by (auto simp: card_subset_eq)
    then show False using False by auto
  qed
  then have lt: "k < int (card C)" using le by (auto simp: k_def)
  have "max 0 (py_fdiv k (int (card C))) < 1"
  proof (cases "k < 0")
    case True
    then have "py_fdiv k (int (card C)) < 0" using pos by (rule py_fdiv_neg)
    then show ?thesis by (simp add: max_def)
  next
    case False
    then have "py_fdiv k (int (card C)) < 1" using lt assms(4) by (intro py_fdiv_lt_1) simp_all
    then show ?thesis by (simp add: max_def)
  qed
  then show ?thesis using False by (simp add: k_def)
qed

lemma py_round2_one_fortieth: "py_round2 (max 0 (py_fdiv 1 40)) = py_float (3 / 100)"
  by code_simp

lemma py_round2_three_fortieths: "py_round2 (max 0 (py_fdiv 3 40)) = py_float (7 / 100)"
  by code_simp

lemma py_round2_two_thirds: "py_round2 (max 0 (py_fdiv 2 3)) = py_float (67 / 100)"
  by code_simp

text \<open>
  Claim C5, amended. Under UNORDERED grading with a non-empty correct list, for every
  submission in which no block is repeated, \<^verbatim>\<open>final_score\<close> is \<open>max(0, q)\<close>, where \<open>q\<close>
  is the floating-point quotient of \<open>|correct \<inter> submitted| - |submitted - correct|\<close> by
  \<open>|correct|\<close> over the uuids, whatever the order and the indentation setting; the stored
  score is \<^verbatim>\<open>round(final_score, 2)\<close>; with fewer than \<open>2 ^ 53\<close> correct blocks
  \<^verbatim>\<open>final_score\<close> is 1 exactly when the submitted uuid set is the correct one; an empty
  submission scores 0.
\<close>

theorem unordered_grade:
  assumes m: "get_attrib (grading_method_attr element) GRADING_METHOD_DEFAULT = UNORDERED"
    and sa: "submitted_answers data (answers_name element) = Some sa"
    and cs: "correct_answers data (answers_name element) = Some cs"
    and ne: "cs \<noteq> []"
    and dc: "distinct (map uuid cs)"
    and ds: "distinct (map uuid sa)"
  shows "unordered_score cs (indentation_gate ci cs sa) =
           Inr (max 0 (py_fdiv (int (card (set (map uuid cs) \<inter> set (map uuid sa)))
                                 - int (card (set (map uuid sa) - set (map uuid cs))))
                               (int (card (set (map uuid cs))))))
    \<and> grade_score chk element data =
           Inr (py_round2 (max 0 (py_fdiv (int (card (set (map uuid cs) \<inter> set (map uuid sa)))
                                 - int (card (set (map uuid sa) - set (map uuid cs))))
                               (int (card (set (map uuid cs)))))))
    \<and> (if int (length cs) < 2 ^ 53
        then (unordered_score cs (indentation_gate ci cs sa) = Inr 1)
               = (set (map uuid sa) = set (map uuid cs))
        else True)
    \<and> (if sa = [] then grade_score chk element data = Inr 0 else True)"
proof -
  let ?C = "set (map uuid cs)" and ?S = "set (map uuid sa)"
  let ?v = "max 0 (py_fdiv (int (card (?C \<inter> ?S)) - int (card (?S - ?C))) (int (card ?C)))"
  have cardC: "card ?C = length cs" using dc by (metis distinct_card length_map)
  have diff: "int (card (?S - ?C)) = int (length sa) - int (card (?C \<inter> ?S))"
    using card_diff_distinct [OF ds, of ?C] by simp
  have u: "unordered_score cs sb = Inr ?v" if "map uuid sb = map uuid sa" for sb
  proof -
    have "unordered_score cs sb = unordered_score cs sa"
      using that by (rule unordered_score_uuid)
    also have "\<dots> = Inr (max 0 (py_fdiv (int (card (?C \<inter> ?S))
                   - (int (length sa) - int (card (?C \<inter> ?S)))) (int (length cs))))"
      by (rule unordered_score_general [OF ne])
    also have "\<dots> = Inr ?v"
      by (simp only: cardC diff)
    finally show ?thesis .
  qed
  have u1: "unordered_score cs (indentation_gate ci cs sa) = Inr ?v" for ci
    by (rule u) simp
  have g: "grade_score chk element data = Inr (py_round2 ?v)"
    by (simp add: grade_score_eq [OF sa cs] m dispatch_def u1)
  have Cne: "?C \<noteq> {}" using ne by simp
  have one: "(?v = 1) = (?S = ?C)" if "int (length cs) < 2 ^ 53"
    by (rule unordered_one_iff) (use Cne that cardC in simp_all)
  have empty: "grade_score chk element data = Inr 0" if "sa = []"
  proof -
    have "?v = 0" using that by simp
    then show ?thesis by (simp only: g py_round2_0)
  qed
  show ?thesis
    using u1 [of ci] g one empty by simp
qed

theorem unordered_grade_witness:
  "grade_score unused_checker (order_blocks ''q'' UNORDERED False None None)
     (question_data ''q'' ex_correct3
        [submitted_block ''u3'' ''c = 3'' None, submitted_block ''u1'' ''a = 1'' None])
   = Inr (py_float (67 / 100))"
proof -
  let ?el = "order_blocks ''q'' UNORDERED False None None"
  let ?sa = "[submitted_block ''u3'' ''c = 3'' None, submitted_block ''u1'' ''a = 1'' None]"
  let ?d = "question_data ''q'' ex_correct3 ?sa"
  have "grade_score unused_checker ?el ?d =
           Inr (py_round2 (max 0 (py_fdiv (int (card (set (map uuid ex_correct3) \<inter> set (map uuid ?sa)))
                                 - int (card (set (map uuid ?sa) - set (map uuid ex_correct3))))
                               (int (card (set (map uuid ex_correct3)))))))"
    using unordered_grade [of ?el ?d ?sa ex_correct3 False unused_checker]
    by (simp add: order_blocks_def question_data_def get_attrib_def ex_correct3_def
        answer_block_def submitted_block_def)
  also have "\<dots> = Inr (py_round2 (max 0 (py_fdiv 2 3)))"
    by (simp add: ex_correct3_def answer_block_def submitted_block_def)
  also have "\<dots> = Inr (py_float (67 / 100))"
    by (simp only: py_round2_two_thirds)
  finally show ?thesis .
qed

text \<open>
  The claim as stated fails for a submission that repeats a block: the code counts
  \<^verbatim>\<open>len(student_answer) - correct_selections\<close> incorrect selections, here 1, where the
  set difference is empty.
\<close>

theorem unordered_repeated_block_counterexample:
  "unordered_score
      [answer_block ''u1'' ''a = 1'' None ''t1'' 1 [], answer_block ''u2'' ''b = 2'' None ''t2'' 2 []]
      [submitted_block ''u1'' ''a = 1'' None, submitted_block ''u1'' ''a = 1'' None] = Inr 0
   \<and> grade_score unused_checker (order_blocks ''q'' UNORDERED False None None)
       (question_data ''q''
          [answer_block ''u1'' ''a = 1'' None ''t1'' 1 [], answer_block ''u2'' ''b = 2'' None ''t2'' 2 []]
          [submitted_block ''u1'' ''a = 1'' None, submitted_block ''u1'' ''a = 1'' None]) = Inr 0
   \<and> max 0 (of_int (int (card ({''u1'', ''u2''} \<inter> {''u1''})) - int (card ({''u1''} - {''u1'', ''u2''})))
              / of_nat (card {''u1'', ''u2''})) = (1 / 2 :: rat)
   \<and> max 0 (py_fdiv (int (card ({''u1'', ''u2''} \<inter> {''u1''})) - int (card ({''u1''} - {''u1'', ''u2''})))
                     (int (card {''u1'', ''u2''}))) = 1 / 2"
proof -
  have h: "py_fdiv 1 2 = 1 / 2" by code_simp
  show ?thesis
    by (simp add: grade_score_def grade_def dispatch_def unordered_score_def order_blocks_def
      question_data_def get_attrib_def answer_block_def submitted_block_def
      indentation_gate_def GRADING_METHOD_DEFAULT_def INDENTION_DEFAULT_def Let_def h)
qed

text \<open>
  Claim C10. Under UNORDERED grading the stored score is the same for any two submissions
  with the same sequence of uuids, whatever their other fields (indent included) and
  whatever the indentation setting of the element.
\<close>

theorem unordered_indent_independent:
  assumes "get_attrib (grading_method_attr element) GRADING_METHOD_DEFAULT = UNORDERED"
    and "submitted_answers data (answers_name element) = Some sa"
    and "map uuid sb = map uuid sa"
  shows "grade_score chk (element\<lparr>indentation_attr := ci\<rparr>)
            (data\<lparr>submitted_answers := (submitted_answers data)(answers_name element \<mapsto> sb)\<rparr>)
         = grade_score chk element data"
proof (cases "correct_answers data (answers_name element)")
  case None
  then show ?thesis
    using assms by (simp add: grade_score_def grade_def Let_def)
next
  case (Some cs)
  have a: "unordered_score cs (indentation_gate c1 cs sb) = unordered_score cs (indentation_gate c2 cs sa)"
    for c1 c2
    by (rule unordered_score_uuid) (simp add: assms(3))
  show ?thesis
    using assms(1,2) Some
    by (simp add: grade_score_eq [where sa = sa and cs = cs]
        grade_score_eq [where sa = sb and cs = cs] dispatch_def a [of _ "get_attrib (indentation_attr element) INDENTION_DEFAULT"])
qed

theorem unordered_indent_independent_witness:
  "grade_score unused_checker (order_blocks ''q'' UNORDERED True None None)
     (question_data ''q'' ex_correct3 [submitted_block ''u1'' ''a = 1'' (Some 3)])
   = grade_score unused_checker (order_blocks ''q'' UNORDERED False None None)
     (question_data ''q'' ex_correct3 [submitted_block ''u1'' ''a = 1'' (Some 0)])"
  using unordered_indent_independent [of "order_blocks ''q'' UNORDERED False None None"
      "question_data ''q'' ex_correct3 [submitted_block ''u1'' ''a = 1'' (Some 0)]"
      "[submitted_block ''u1'' ''a = 1'' (Some 0)]"
      "[submitted_block ''u1'' ''a = 1'' (Some 3)]" unused_checker "Some True"]
  by (simp add: order_blocks_def question_data_def get_attrib_def submitted_block_def)

section \<open>ORDERED grading and the frame of grade\<close>

lemma gate_off [simp]: "indentation_gate False cs sa = sa"
  by (simp add: indentation_gate_def)

lemma map_transpose_adjacent:
  "Suc i < length xs \<Longrightarrow> map f (transpose_adjacent i xs) = transpose_adjacent i (map f xs)"
  by (simp add: transpose_adjacent_def map_update)

lemma transpose_adjacent_eq_iff:
  assumes "Suc i < length xs"
  shows "(transpose_adjacent i xs = xs) = (xs ! i = xs ! Suc i)"
proof
  assume h: "transpose_adjacent i xs = xs"
  have "transpose_adjacent i xs ! Suc i = xs ! i"
    using assms by (simp add: transpose_adjacent_def)
  with h show "xs ! i = xs ! Suc i" by simp
next
  assume h: "xs ! i = xs ! Suc i"
  have "xs[i := xs ! Suc i] = xs"
    using h by (metis list_update_id)
  then have "xs[i := xs ! Suc i, Suc i := xs ! i] = xs[Suc i := xs ! Suc i]"
    using h by simp
  then show "transpose_adjacent i xs = xs"
    by (simp add: transpose_adjacent_def)
qed

text \<open>
  Claim C6, amended. Under ORDERED grading the score is exactly 1 if the sequence of
  submitted contents, as the indentation gate leaves it, equals the correct content
  sequence element for element, and exactly 0 otherwise; with indentation checking off
  the gate leaves the submission as it is. Exchanging two adjacent correct elements
  yields 0 exactly when their contents differ.
\<close>

theorem ordered_grade:
  assumes m: "get_attrib (grading_method_attr element) GRADING_METHOD_DEFAULT = ORDERED"
    and sa: "submitted_answers data (answers_name element) = Some sa"
    and cs: "correct_answers data (answers_name element) = Some cs"
  shows "grade_score chk element data =
           Inr (if map inner_html
                     (indentation_gate (get_attrib (indentation_attr element) INDENTION_DEFAULT) cs sa)
                   = map inner_html cs then 1 else 0)
    \<and> (if get_attrib (indentation_attr element) INDENTION_DEFAULT then True
        else grade_score chk element data
               = Inr (if map inner_html sa = map inner_html cs then 1 else 0))
    \<and> (if Suc i < length cs
        then ordered_score cs (transpose_adjacent i cs)
               = (if inner_html (cs ! i) = inner_html (cs ! Suc i) then 1 else 0)
        else True)"
proof -
  have g: "grade_score chk element data =
           Inr (if map inner_html
                     (indentation_gate (get_attrib (indentation_attr element) INDENTION_DEFAULT) cs sa)
                   = map inner_html cs then 1 else 0)"
    by (simp add: grade_score_eq [OF sa cs] m dispatch_def ordered_score_def)
  have t: "ordered_score cs (transpose_adjacent i cs)
               = (if inner_html (cs ! i) = inner_html (cs ! Suc i) then 1 else 0)"
    if h: "Suc i < length cs"
  proof -
    have "(map inner_html (transpose_adjacent i cs) = map inner_html cs)
        = (map inner_html cs ! i = map inner_html cs ! Suc i)"
      using h by (simp add: map_transpose_adjacent transpose_adjacent_eq_iff)
    then show ?thesis using h by (simp add: ordered_score_def)
  qed
  show ?thesis
    using g t by (cases "get_attrib (indentation_attr element) INDENTION_DEFAULT") simp_all
qed

theorem ordered_grade_witness:
  "grade_score unused_checker (order_blocks ''q'' ORDERED False None None)
       (question_data ''q'' ex_correct3
          [submitted_block ''u1'' ''a = 1'' None, submitted_block ''u3'' ''c = 3'' None,
           submitted_block ''u2'' ''b = 2'' None]) = Inr 0
   \<and> ordered_score ex_correct3 (transpose_adjacent 1 ex_correct3) = 0"
  using ordered_grade [where element = "order_blocks ''q'' ORDERED False None None"
      and data = "question_data ''q'' ex_correct3
          [submitted_block ''u1'' ''a = 1'' None, submitted_block ''u3'' ''c = 3'' None,
           submitted_block ''u2'' ''b = 2'' None]"
      and sa = "[submitted_block ''u1'' ''a = 1'' None, submitted_block ''u3'' ''c = 3'' None,
           submitted_block ''u2'' ''b = 2'' None]"
      and cs = ex_correct3 and i = 1 and chk = unused_checker]
  by (simp add: order_blocks_def question_data_def get_attrib_def submitted_block_def
      ex_correct3_def answer_block_def)

text \<open>
  The claim as stated fails where two adjacent correct blocks have the same content:
  the transposed submission has the same content sequence and scores 1.
\<close>

theorem ordered_same_content_counterexample:
  "map uuid (transpose_adjacent 0 ex_same_content) = [''u2'', ''u1'']
   \<and> map uuid ex_same_content = [''u1'', ''u2'']
   \<and> grade_score unused_checker (order_blocks ''q'' ORDERED False None None)
        (question_data ''q'' ex_same_content (transpose_adjacent 0 ex_same_content)) = Inr 1"
  by (simp add: grade_score_def grade_def dispatch_def ordered_score_def order_blocks_def
      question_data_def get_attrib_def answer_block_def transpose_adjacent_def
      ex_same_content_def indentation_gate_def Let_def)

lemma grade_result:
  assumes "grade chk element data = Inr data'"
  shows "\<exists>cs sa final_score first_wrong fb.
      correct_answers data (answers_name element) = Some cs
    \<and> submitted_answers data (answers_name element) = Some sa
    \<and> dispatch chk (get_attrib (grading_method_attr element) GRADING_METHOD_DEFAULT)
         (get_attrib (partial_credit_attr element) LCS)
         (get_attrib (feedback_attr element) FEEDBACK_DEFAULT)
         (get_attrib (indentation_attr element) INDENTION_DEFAULT) cs
         (indentation_gate (get_attrib (indentation_attr element) INDENTION_DEFAULT) cs sa)
        = Inr (final_score, first_wrong, fb)
    \<and> data' = data\<lparr>submitted_answers :=
                 (submitted_answers data)(answers_name element \<mapsto>
                    indentation_gate (get_attrib (indentation_attr element) INDENTION_DEFAULT)
                      cs sa),
               partial_scores := (partial_scores data)(answers_name element \<mapsto>
                 \<lparr>score = py_round2 final_score, feedback = fb,
                  weight = get_attrib (weight_attr element) WEIGHT_DEFAULT\<rparr>)\<rparr>"
proof -
  obtain sa where sa: "submitted_answers data (answers_name element) = Some sa"
    using assms by (auto simp: grade_def Let_def split: option.splits)
  obtain cs where cs: "correct_answers data (answers_name element) = Some cs"
    using assms sa by (auto simp: grade_def Let_def split: option.splits)
  let ?ci = "get_attrib (indentation_attr element) INDENTION_DEFAULT"
  obtain fs fw fb where d: "dispatch chk (get_attrib (grading_method_attr element) GRADING_METHOD_DEFAULT)
             (get_attrib (partial_credit_attr element) LCS)
             (get_attrib (feedback_attr element) FEEDBACK_DEFAULT) ?ci cs
             (indentation_gate ?ci cs sa) = Inr (fs, fw, fb)"
    using assms sa cs by (auto simp: grade_def Let_def split: sum.splits)
  have e: "data' = data\<lparr>submitted_answers :=
                 (submitted_answers data)(answers_name element \<mapsto> indentation_gate ?ci cs sa),
               partial_scores := (partial_scores data)(answers_name element \<mapsto>
               \<lparr>score = py_round2 fs, feedback = fb,
                weight = get_attrib (weight_attr element) WEIGHT_DEFAULT\<rparr>)\<rparr>"
    using assms sa cs d by (simp add: grade_def Let_def)
  show ?thesis using sa cs d e by blast
qed

text \<open>
  Claim C8, amended. A grading call that returns leaves the stored correct answers (from
  which the dependency graph is rebuilt at every call) and the parameters unchanged, and
  writes the score result (rounded score, feedback, weight) under the answer name. The
  submitted answers under that name become the gated list: unchanged when indentation
  checking is off, with the tag or content of every mis-indented block nulled when it
  is on.
\<close>

theorem grade_frame:
  assumes "grade chk element data = Inr data'"
  shows "correct_answers data' = correct_answers data
    \<and> params data' = params data
    \<and> (\<exists>cs sa final_score first_wrong fb.
          correct_answers data (answers_name element) = Some cs
        \<and> submitted_answers data (answers_name element) = Some sa
        \<and> submitted_answers data' =
            (submitted_answers data)(answers_name element \<mapsto>
               indentation_gate (get_attrib (indentation_attr element) INDENTION_DEFAULT) cs sa)
        \<and> dispatch chk (get_attrib (grading_method_attr element) GRADING_METHOD_DEFAULT)
             (get_attrib (partial_credit_attr element) LCS)
             (get_attrib (feedback_attr element) FEEDBACK_DEFAULT)
             (get_attrib (indentation_attr element) INDENTION_DEFAULT) cs
             (indentation_gate (get_attrib (indentation_attr element) INDENTION_DEFAULT) cs sa)
            = Inr (final_score, first_wrong, fb)
        \<and> partial_scores data' =
            (partial_scores data)(answers_name element \<mapsto>
               \<lparr>score = py_round2 final_score, feedback = fb,
                weight = get_attrib (weight_attr element) WEIGHT_DEFAULT\<rparr>))
    \<and> (if get_attrib (indentation_attr element) INDENTION_DEFAULT then True
        else submitted_answers data' = submitted_answers data)"
proof -
  let ?ci = "get_attrib (indentation_attr element) INDENTION_DEFAULT"
  obtain cs sa fs fw fb where
    cs: "correct_answers data (answers_name element) = Some cs"
    and sa: "submitted_answers data (answers_name element) = Some sa"
    and d: "dispatch chk (get_attrib (grading_method_attr element) GRADING_METHOD_DEFAULT)
             (get_attrib (partial_credit_attr element) LCS)
             (get_attrib (feedback_attr element) FEEDBACK_DEFAULT) ?ci cs
             (indentation_gate ?ci cs sa) = Inr (fs, fw, fb)"
    and e: "data' = data\<lparr>submitted_answers :=
                 (submitted_answers data)(answers_name element \<mapsto> indentation_gate ?ci cs sa),
               partial_scores := (partial_scores data)(answers_name element \<mapsto>
               \<lparr>score = py_round2 fs, feedback = fb,
                weight = get_attrib (weight_attr element) WEIGHT_DEFAULT\<rparr>)\<rparr>"
    using grade_result [OF assms] by (elim exE conjE, intro that)
  have off: "submitted_answers data' = submitted_answers data" if "\<not> ?ci"
    using e sa that by (simp add: fun_upd_idem)
  show ?thesis
    using e sa cs d off by (cases ?ci) auto
qed

theorem grade_frame_witness:
  "correct_answers
     (projr (grade unused_checker (order_blocks ''q'' ORDERED False None None)
        (question_data ''q'' ex_correct3 [submitted_block ''u1'' ''a = 1'' (Some 0)])))
   = [''q'' \<mapsto> ex_correct3]
   \<and> submitted_answers
     (projr (grade unused_checker (order_blocks ''q'' ORDERED False None None)
        (question_data ''q'' ex_correct3 [submitted_block ''u1'' ''a = 1'' (Some 0)])))
   = [''q'' \<mapsto> [submitted_block ''u1'' ''a = 1'' (Some 0)]]"
proof -
  let ?el = "order_blocks ''q'' ORDERED False None None"
  let ?d = "question_data ''q'' ex_correct3 [submitted_block ''u1'' ''a = 1'' (Some 0)]"
  have ex: "grade unused_checker ?el ?d = Inr (projr (grade unused_checker ?el ?d))"
    by (simp add: grade_def dispatch_def order_blocks_def question_data_def get_attrib_def Let_def)
  show ?thesis
    using grade_frame [OF ex]
    by (simp add: order_blocks_def question_data_def get_attrib_def)
qed

text \<open>
  The claim as stated fails with indentation checking on: the gate assigns into the
  submitted dictionaries, so the stored submission differs after the call.
\<close>

theorem grade_mutates_submission_counterexample:
  "(case grade unused_checker (order_blocks ''q'' ORDERED True None None)
           (question_data ''q'' [answer_block ''u1'' ''a = 1'' (Some 1) ''t1'' 1 []]
              [submitted_block ''u1'' ''a = 1'' (Some 0)]) of
      Inl e \<Rightarrow> None
    | Inr data' \<Rightarrow> submitted_answers data' ''q'')
   = Some [(submitted_block ''u1'' ''a = 1'' (Some 0))\<lparr>inner_html := None\<rparr>]
   \<and> (submitted_block ''u1'' ''a = 1'' (Some 0))\<lparr>inner_html := None\<rparr>
       \<noteq> submitted_block ''u1'' ''a = 1'' (Some 0)"
  by (simp add: grade_def dispatch_def order_blocks_def question_data_def get_attrib_def Let_def
      indentation_gate_def indentations_def dict_of_def gate_block_def dict_get_def
      answer_block_def submitted_block_def)

section \<open>RANKING and DAG grading\<close>

lemma dag_branch_eq:
  assumes "tags_of gated = Inr submission"
    and "build_graph m cs = Inr (g, gb)"
    and "grade_dag chk submission g gb = Inr (n, l)"
  shows "dag_branch chk m pc ft ci cs gated =
     (case partial_credit_score chk pc submission g gb n l of
        Inl e \<Rightarrow> Inl e
      | Inr fs \<Rightarrow> Inr (fs, first_wrong_of n submission,
                       first_wrong_feedback ft ci gb fs (first_wrong_of n submission)))"
  using assms by (simp add: dag_branch_def Let_def)

lemma dispatch_dag:
  "m = RANKING \<or> m = DAG \<Longrightarrow> dispatch chk m pc ft ci cs gated = dag_branch chk m pc ft ci cs gated"
  by (auto simp: dispatch_def)


text \<open>
  Claim C3. Under RANKING or DAG grading the first wrong index is absent exactly when
  \<open>num_initial_correct\<close> is the length of the submission, and is
  \<open>num_initial_correct\<close> otherwise. When the score is below 1 and the feedback policy
  is first-wrong, the feedback is the incomplete message if there is no first wrong
  index, and otherwise the wrong-at-block message for block \<open>first_wrong + 1\<close>,
  followed by the indentation hint (indentation checking on), the block-group hint
  (some block in a group) and the closing tag. In every other case it is empty.
\<close>

theorem first_wrong_feedback_correct:
  assumes m: "get_attrib (grading_method_attr element) GRADING_METHOD_DEFAULT = grading_method"
    and rd: "grading_method = RANKING \<or> grading_method = DAG"
    and sa: "submitted_answers data (answers_name element) = Some sa"
    and cs: "correct_answers data (answers_name element) = Some cs"
    and sub: "tags_of (indentation_gate (get_attrib (indentation_attr element) INDENTION_DEFAULT) cs sa)
                = Inr submission"
    and g: "build_graph grading_method cs = Inr (depends_graph, group_belonging)"
    and gd: "grade_dag chk submission depends_graph group_belonging
                = Inr (num_initial_correct, true_answer_length)"
    and pc: "partial_credit_score chk (get_attrib (partial_credit_attr element) LCS) submission
                depends_graph group_belonging num_initial_correct true_answer_length
                = Inr final_score"
  shows "\<exists>first_wrong fb data'.
      dispatch chk grading_method (get_attrib (partial_credit_attr element) LCS)
          (get_attrib (feedback_attr element) FEEDBACK_DEFAULT)
          (get_attrib (indentation_attr element) INDENTION_DEFAULT) cs
          (indentation_gate (get_attrib (indentation_attr element) INDENTION_DEFAULT) cs sa)
        = Inr (final_score, first_wrong, fb)
    \<and> length submission = length sa
    \<and> (first_wrong = None) = (num_initial_correct = int (length submission))
    \<and> (if first_wrong = None then True else first_wrong = Some num_initial_correct)
    \<and> grade chk element data = Inr data'
    \<and> partial_scores data' (answers_name element)
        = Some \<lparr>score = py_round2 final_score, feedback = fb,
                weight = get_attrib (weight_attr element) WEIGHT_DEFAULT\<rparr>
    \<and> (if py_round2 final_score < 1 then final_score < 1 else True)
    \<and> fb = (if final_score < 1
                  \<and> get_attrib (feedback_attr element) FEEDBACK_DEFAULT = FIRST_WRONG
             then (if first_wrong = None then [Incomplete]
                   else [WrongAtBlock (num_initial_correct + 1)]
                        @ (if get_attrib (indentation_attr element) INDENTION_DEFAULT
                           then [IndentationHint] else [])
                        @ (if has_block_groups group_belonging then [BlockGroupHint] else [])
                        @ [UlClose])
             else [])"
proof -
  let ?ci = "get_attrib (indentation_attr element) INDENTION_DEFAULT"
  let ?ft = "get_attrib (feedback_attr element) FEEDBACK_DEFAULT"
  let ?pc = "get_attrib (partial_credit_attr element) LCS"
  let ?fw = "first_wrong_of num_initial_correct submission"
  let ?fb = "first_wrong_feedback ?ft ?ci group_belonging final_score ?fw"
  have d: "dispatch chk grading_method ?pc ?ft ?ci cs (indentation_gate ?ci cs sa)
             = Inr (final_score, ?fw, ?fb)"
    by (simp add: dispatch_dag [OF rd] dag_branch_eq [OF sub g gd] pc)
  have len: "length submission = length sa"
    using tags_of_nth [OF sub] by simp
  have fw: "(?fw = None) = (num_initial_correct = int (length submission))"
    by (simp add: first_wrong_of_def)
  have fw2: "?fw \<noteq> None \<Longrightarrow> ?fw = Some num_initial_correct"
    by (simp add: first_wrong_of_def split: if_splits)
  have gr: "grade chk element data =
      Inr (data\<lparr>submitted_answers :=
                 (submitted_answers data)(answers_name element \<mapsto> indentation_gate ?ci cs sa),
               partial_scores := (partial_scores data)(answers_name element \<mapsto>
               \<lparr>score = py_round2 final_score, feedback = ?fb,
                weight = get_attrib (weight_attr element) WEIGHT_DEFAULT\<rparr>)\<rparr>)"
    using sa cs d m by (simp add: grade_def Let_def)
  have rnd: "py_round2 final_score < 1 \<Longrightarrow> final_score < 1"
    using py_round2_ge1 [of final_score] by (cases "final_score < 1") auto
  have fb: "?fb = (if final_score < 1 \<and> ?ft = FIRST_WRONG
             then (if ?fw = None then [Incomplete]
                   else [WrongAtBlock (num_initial_correct + 1)]
                        @ (if ?ci then [IndentationHint] else [])
                        @ (if has_block_groups group_belonging then [BlockGroupHint] else [])
                        @ [UlClose])
             else [])"
    by (cases ?ft) (auto simp: first_wrong_feedback_def first_wrong_of_def)
  show ?thesis
    apply (rule exI [of _ ?fw])
    apply (rule exI [of _ ?fb])
    apply (rule exI)
    apply (intro conjI)
           apply (rule d)
          apply (rule len)
         apply (rule fw)
        apply (use fw2 in simp)
       apply (rule gr)
      apply simp
     apply (use rnd in simp)
    apply (rule fb)
    done
qed

lemma ex_ranking_graph:
  "build_graph RANKING ex_correct3 =
     Inr ([(Some ''t1'', []), (Some ''t2'', [Some ''t1'']), (Some ''t3'', [Some ''t1''])], [])"
  by code_simp

lemma ex_tags: "tags_of ex_missing_first = Inr [Some ''t2'', Some ''t3'']"
  by (simp add: ex_missing_first_def parsed_block_def submitted_block_def)


lemma two_thirds_below_1: "max 0 (py_fdiv 2 3) < 1"
  by code_simp

theorem first_wrong_feedback_witness:
  "(case grade (fixed_checker 0 3 1) (order_blocks ''q'' RANKING False (Some LCS) (Some FIRST_WRONG))
            (question_data ''q'' ex_correct3 ex_missing_first) of
      Inl e \<Rightarrow> None
    | Inr data' \<Rightarrow> map_option feedback (partial_scores data' ''q''))
   = Some [WrongAtBlock 1, UlClose]"
  using first_wrong_feedback_correct
     [where element = "order_blocks ''q'' RANKING False (Some LCS) (Some FIRST_WRONG)"
      and grading_method = RANKING
      and data = "question_data ''q'' ex_correct3 ex_missing_first"
      and sa = ex_missing_first and cs = ex_correct3
      and submission = "[Some ''t2'', Some ''t3'']"
      and depends_graph = "[(Some ''t1'', []), (Some ''t2'', [Some ''t1'']), (Some ''t3'', [Some ''t1''])]"
      and group_belonging = "[]" and chk = "fixed_checker 0 3 1"
      and num_initial_correct = 0 and true_answer_length = 3
      and final_score = "max 0 (py_fdiv 2 3)"]
    two_thirds_below_1
  by (auto simp: order_blocks_def question_data_def get_attrib_def ex_tags ex_ranking_graph
      fixed_checker_def partial_credit_score_def has_block_groups_def)

section \<open>The rank normaliser\<close>

lemma tags_of_iff: "(tags_of xs = Inr ts) = (map tag xs = map Some ts)"
proof (induction xs arbitrary: ts)
  case Nil
  then show ?case by auto
next
  case (Cons x xs)
  show ?case
  proof (cases "tag x")
    case None
    then show ?thesis by auto
  next
    case (Some t)
    show ?thesis
    proof (cases "tags_of xs")
      case (Inl e)
      have "map tag xs \<noteq> map Some us" for us
        using Cons.IH [of us] Inl by simp
      then show ?thesis using Some Inl by (cases ts) auto
    next
      case (Inr us)
      then have "map tag xs = map Some us" using Cons.IH by simp
      then show ?thesis using Some Inr by (cases ts) auto
    qed
  qed
qed

lemma map_filter_present:
  "map tag xs = map Some ts \<Longrightarrow> List.map_filter tag xs = ts"
proof (induction xs arbitrary: ts)
  case Nil
  then show ?case by (simp add: List.map_filter_simps)
next
  case (Cons x xs)
  then show ?case by (cases ts) (auto simp: List.map_filter_simps)
qed

lemma tags_present_sorted:
  assumes "map tag cs = map Some ts"
  shows "map tag (sort_key f cs) = map Some (List.map_filter tag (sort_key f cs))"
proof -
  have all: "\<forall>a \<in> set cs. tag a \<noteq> None"
  proof
    fix a assume "a \<in> set cs"
    then have "tag a \<in> set (map tag cs)" by simp
    then show "tag a \<noteq> None" unfolding assms by auto
  qed
  have h: "\<forall>a \<in> set xs. tag a \<noteq> None \<Longrightarrow> map tag xs = map Some (List.map_filter tag xs)" for xs
    by (induction xs) (auto simp: List.map_filter_simps)
  show ?thesis by (rule h) (use all in simp)
qed

lemma distinct_tags_sorted:
  assumes "map tag cs = map Some ts" and "distinct ts"
  shows "distinct (List.map_filter tag (sort_key f cs))"
proof -
  have d: "distinct (map tag cs)"
    unfolding assms(1) using assms(2) by (simp add: distinct_map)
  have "distinct (map tag (sort_key f cs))"
    using d by (simp add: distinct_map)
  then have "distinct (map Some (List.map_filter tag (sort_key f cs)))"
    using tags_present_sorted [OF assms(1), of f] by simp
  then show ?thesis by (simp add: distinct_map)
qed

lemma lines_of_rank_distinct:
  assumes "distinct (map fst ps)"
  shows "lines_of_rank ps p = map fst [x \<leftarrow> ps. snd x = p]"
proof -
  have "\<forall>x \<in> set ps. (map_of ps (fst x) = Some p) = (snd x = p)"
    using assms by (auto simp: map_of_eq_Some_iff dest: eq_key_imp_eq_value)
  then show ?thesis
    by (simp add: lines_of_rank_def filter_map comp_def cong: filter_cong)
qed

lemma sorted_filter_less_pre:
  fixes pre suf :: "int list"
  assumes s: "sorted (pre @ r # suf)" and ne: "pre \<noteq> []" and lt: "last pre < r"
  shows "filter (\<lambda>q. q < r) (pre @ r # suf) = pre"
proof -
  have a: "\<forall>x \<in> set pre. x \<le> last pre"
  proof
    fix x assume x: "x \<in> set pre"
    have sp: "sorted pre" using s by (simp add: sorted_append)
    obtain ys where ys: "pre = ys @ [last pre]"
      using ne by (metis append_butlast_last_id)
    have "sorted (ys @ [last pre])" using sp ys by simp
    then have "\<forall>y \<in> set ys. y \<le> last pre" by (simp add: sorted_append)
    moreover have "x \<in> set ys \<or> x = last pre" using x ys by (metis Un_iff insert_iff list.set(2) set_append empty_set empty_iff)
    ultimately show "x \<le> last pre" by auto
  qed
  have b: "\<forall>x \<in> set (r # suf). r \<le> x"
    using s by (auto simp: sorted_append)
  have "filter (\<lambda>q. q < r) pre = pre"
    using a lt by (auto simp: filter_id_conv)
  moreover have "filter (\<lambda>q. q < r) (r # suf) = []"
    using b by (auto simp: filter_empty_conv)
  ultimately show ?thesis by simp
qed

lemma sorted_filter_less_head:
  fixes suf :: "int list"
  assumes "sorted (r # suf)"
  shows "filter (\<lambda>q. q < r) (r # suf) = []"
  using assms by (auto simp: filter_empty_conv)

lemma sorted_filter_less_same:
  fixes pre suf :: "int list"
  assumes "pre \<noteq> []" and "last pre = r"
  shows "filter (\<lambda>q. q < r) (pre @ r # suf) = filter (\<lambda>q. q < last pre) (pre @ r # suf)"
  using assms by simp

lemma rank_loop_inv:
  fixes every :: "(node \<times> int) list"
  assumes D: "\<And>r. D r = (case filter (\<lambda>q. q < r) (map snd every) of
                            [] \<Rightarrow> []
                          | q # qs \<Rightarrow> lines_of_rank every (last (q # qs)))"
    and ev: "every = pre @ suf"
    and dk: "distinct (map fst every)"
    and so: "sorted (map snd every)"
    and pv: "prev = (if pre = [] then None else Some (snd (last pre)))"
    and cu: "cur = (if pre = [] then [] else D (snd (last pre)))"
    and gk: "map fst g = map fst pre"
  shows "\<exists>g'. rank_loop every (map fst suf) g cur prev = Inr g'
           \<and> map fst g' = map fst every
           \<and> (\<forall>x \<in> set suf. map_of g' (fst x) = Some (D (snd x)))
           \<and> (\<forall>t. t \<notin> fst ` set suf \<longrightarrow> map_of g' t = map_of g t)"
  using ev pv cu gk
proof (induction suf arbitrary: pre g cur prev)
  case Nil
  then show ?case by simp
next
  case (Cons x suf)
  obtain t r where x: "x = (t, r)" by (cases x)
  have ev': "every = pre @ (t, r) # suf" using Cons.prems(1) x by simp
  have look: "map_of every t = Some r"
  proof (rule map_of_is_SomeI [OF dk])
    show "(t, r) \<in> set every" using ev' by simp
  qed
  have sr: "sorted (map snd pre @ r # map snd suf)"
    using so ev' by simp
  let ?cur = "(case prev of None \<Rightarrow> cur
               | Some p \<Rightarrow> if r \<noteq> p then lines_of_rank every p else cur)"
  have cur': "?cur = D r"
  proof (cases "pre = []")
    case True
    have "filter (\<lambda>q. q < r) (map snd every) = []"
      using sorted_filter_less_head [of r "map snd suf"] sr True ev' by simp
    then have "D r = []" by (simp add: D)
    then show ?thesis using True Cons.prems(2,3) by simp
  next
    case False
    let ?p = "snd (last pre)"
    have lp: "last (map snd pre) = ?p" using False by (simp add: last_map)
    have ple: "?p \<le> r"
    proof -
      have "?p \<in> set (map snd pre)" using False lp by (metis last_in_set map_is_Nil_conv)
      then show ?thesis using sr by (auto simp: sorted_append)
    qed
    show ?thesis
    proof (cases "r = ?p")
      case True
      then show ?thesis using False Cons.prems(2,3) by simp
    next
      case neq: False
      then have lt: "last (map snd pre) < r" using ple lp by simp
      have "filter (\<lambda>q. q < r) (map snd every) = map snd pre"
        using sorted_filter_less_pre [OF sr _ lt] False ev' by simp
      then have "D r = lines_of_rank every ?p"
        using False lp by (cases "map snd pre") (simp_all add: D)
      then show ?thesis using False neq Cons.prems(2) by simp
    qed
  qed
  have fresh: "t \<notin> fst ` set g"
  proof -
    have "t \<notin> set (map fst pre)" using dk ev' by auto
    then show ?thesis using Cons.prems(4) by (metis set_map)
  qed
  have upd: "AList.update t ?cur g = g @ [(t, ?cur)]"
    using fresh by (rule update_fresh)
  have step: "rank_loop every (map fst (x # suf)) g cur prev
        = rank_loop every (map fst suf) (AList.update t ?cur g) ?cur (Some r)"
    by (simp add: x look Let_def)
  have "\<exists>g'. rank_loop every (map fst suf) (AList.update t ?cur g) ?cur (Some r) = Inr g'
           \<and> map fst g' = map fst every
           \<and> (\<forall>x \<in> set suf. map_of g' (fst x) = Some (D (snd x)))
           \<and> (\<forall>t'. t' \<notin> fst ` set suf \<longrightarrow> map_of g' t' = map_of (AList.update t ?cur g) t')"
  proof (rule Cons.IH [of "pre @ [(t, r)]"])
    show "every = (pre @ [(t, r)]) @ suf" using ev' by simp
    show "Some r = (if pre @ [(t, r)] = [] then None else Some (snd (last (pre @ [(t, r)]))))"
      by simp
    show "?cur = (if pre @ [(t, r)] = [] then [] else D (snd (last (pre @ [(t, r)]))))"
      using cur' by simp
    show "map fst (AList.update t ?cur g) = map fst (pre @ [(t, r)])"
      using upd Cons.prems(4) by simp
  qed
  then obtain g' where g': "rank_loop every (map fst suf) (AList.update t ?cur g) ?cur (Some r) = Inr g'"
      "map fst g' = map fst every"
      "\<forall>x \<in> set suf. map_of g' (fst x) = Some (D (snd x))"
      "\<forall>t'. t' \<notin> fst ` set suf \<longrightarrow> map_of g' t' = map_of (AList.update t ?cur g) t'"
    by blast
  have tn: "t \<notin> fst ` set suf" using dk ev' by auto
  have here: "map_of g' t = Some (D r)"
    using g'(4) tn cur' by (simp add: AList.update_conv')
  have other: "map_of g' t' = map_of g t'" if "t' \<notin> fst ` set (x # suf)" for t'
  proof -
    have "t' \<noteq> t" "t' \<notin> fst ` set suf" using that x by auto
    then show ?thesis using g'(4) by (simp add: AList.update_conv')
  qed
  show ?case
    unfolding step using g'(1,2,3) here other x by auto
qed

lemma sorted_le_last:
  fixes l :: "int list"
  assumes "sorted l" and "x \<in> set l"
  shows "x \<le> last l"
proof -
  have ne: "l \<noteq> []" using assms(2) by auto
  obtain ys where ys: "l = ys @ [last l]"
    using ne by (metis append_butlast_last_id)
  have "sorted (ys @ [last l])" using assms(1) ys by simp
  then have "\<forall>y \<in> set ys. y \<le> last l" by (simp add: sorted_append)
  moreover have "x \<in> set ys \<or> x = last l"
    using assms(2) ys by (metis Un_iff insert_iff list.set(2) set_append empty_set empty_iff)
  ultimately show ?thesis by auto
qed

lemma previous_rank_iff:
  "(previous_rank cs r = Some p)
     = (p \<in> ranking ` set cs \<and> p < r \<and> (\<forall>b \<in> set cs. ranking b < r \<longrightarrow> ranking b \<le> p))"
proof -
  let ?l = "filter (\<lambda>q. q < r) (map ranking (sort_key ranking cs))"
  have sl: "sorted ?l" by (rule sorted_wrt_filter) (rule sorted_sort_key)
  have mem: "(q \<in> set ?l) = (q \<in> ranking ` set cs \<and> q < r)" for q by auto
  show ?thesis
  proof (cases ?l)
    case Nil
    then have "\<not> (p \<in> ranking ` set cs \<and> p < r)"
      using mem [of p] by simp
    moreover have "previous_rank cs r = None"
      using Nil by (simp add: previous_rank_def)
    ultimately show ?thesis by auto
  next
    case (Cons q qs)
    have pr: "previous_rank cs r = Some (last ?l)"
      using Cons by (simp add: previous_rank_def)
    have ne: "?l \<noteq> []" using Cons by simp
    have lin: "last ?l \<in> set ?l" using ne by (rule last_in_set)
    show ?thesis
    proof
      assume "previous_rank cs r = Some p"
      then have p: "p = last ?l" using pr by simp
      have "p \<in> ranking ` set cs \<and> p < r" using lin mem [of p] p by simp
      moreover have "ranking b \<le> p" if "b \<in> set cs" "ranking b < r" for b
      proof -
        have "ranking b \<in> set ?l" using that mem [of "ranking b"] by simp
        then show ?thesis using sorted_le_last [OF sl] p by simp
      qed
      ultimately show "p \<in> ranking ` set cs \<and> p < r \<and> (\<forall>b \<in> set cs. ranking b < r \<longrightarrow> ranking b \<le> p)"
        by simp
    next
      assume h: "p \<in> ranking ` set cs \<and> p < r \<and> (\<forall>b \<in> set cs. ranking b < r \<longrightarrow> ranking b \<le> p)"
      then have "p \<in> set ?l" using mem [of p] by simp
      then have a: "p \<le> last ?l" by (rule sorted_le_last [OF sl])
      obtain b where b: "b \<in> set cs" "ranking b = last ?l" "last ?l < r"
        using lin mem [of "last ?l"] by auto
      then have "last ?l \<le> p" using h by auto
      then show "previous_rank cs r = Some p" using a pr by simp
    qed
  qed
qed

lemma set_map_filter_tag:
  "(t \<in> set (List.map_filter f xs)) = (\<exists>x \<in> set xs. f x = Some t)"
  by (induction xs) (auto simp: List.map_filter_simps split: option.splits)

lemma rank_depends_mem:
  "(t \<in> set (rank_depends cs r))
     = (\<exists>b \<in> set cs. tag b = Some t \<and> previous_rank cs r = Some (ranking b))"
proof (cases "previous_rank cs r")
  case None
  then show ?thesis by (simp add: rank_depends_def)
next
  case (Some p)
  then show ?thesis
    by (auto simp: rank_depends_def set_map_filter_tag)
qed

lemma zip_filter_tags:
  "map tag xs = map Some us \<Longrightarrow>
     map fst [x \<leftarrow> zip us (map ranking xs). snd x = p]
       = List.map_filter tag [b \<leftarrow> xs. ranking b = p]"
proof (induction xs arbitrary: us)
  case Nil
  then show ?case by (simp add: List.map_filter_simps)
next
  case (Cons x xs)
  then show ?case by (cases us) (auto simp: List.map_filter_simps)
qed

lemma zip_tags_mem:
  "map tag xs = map Some us \<Longrightarrow> a \<in> set xs \<Longrightarrow> tag a = Some t
     \<Longrightarrow> (t, ranking a) \<in> set (zip us (map ranking xs))"
proof (induction xs arbitrary: us)
  case Nil
  then show ?case by simp
next
  case (Cons x xs)
  then show ?case by (cases us) auto
qed

lemma ranking_graph_lookup:
  assumes ts: "tags_of cs = Inr ts" and dt: "distinct ts"
  shows "\<exists>g. ranking_graph cs = Inr g
     \<and> map fst g = List.map_filter tag (sort_key ranking cs)
     \<and> (\<forall>a \<in> set cs. \<forall>t. tag a = Some t \<longrightarrow> map_of g t = Some (rank_depends cs (ranking a)))"
proof -
  let ?s = "sort_key ranking cs"
  let ?us = "List.map_filter tag ?s"
  let ?ps = "zip ?us (map ranking ?s)"
  have mt: "map tag cs = map Some ts" using ts by (simp add: tags_of_iff)
  have ms: "map tag ?s = map Some ?us" by (rule tags_present_sorted [OF mt])
  have tos: "tags_of ?s = Inr ?us" using ms by (simp add: tags_of_iff)
  have du: "distinct ?us" by (rule distinct_tags_sorted [OF mt dt])
  have len: "length ?us = length ?s" using ms by (metis length_map)
  have kf: "map fst ?ps = ?us" using len by simp
  have ks: "map snd ?ps = map ranking ?s" using len by simp
  have dk: "distinct (map fst ?ps)" using du kf by simp
  have dict: "dict_of ?ps = ?ps" by (rule dict_of_distinct [OF dk])
  have so: "sorted (map snd ?ps)" unfolding ks by (rule sorted_sort_key)
  define D where "D = (\<lambda>r. case filter (\<lambda>q. q < r) (map snd ?ps) of
                            [] \<Rightarrow> []
                          | q # qs \<Rightarrow> lines_of_rank ?ps (last (q # qs)))"
  have Deq: "D r = rank_depends cs r" for r
  proof (cases "filter (\<lambda>q. q < r) (map ranking ?s)")
    case Nil
    then show ?thesis by (simp add: D_def ks rank_depends_def previous_rank_def)
  next
    case (Cons q qs)
    have "lines_of_rank ?ps p = List.map_filter tag [b \<leftarrow> ?s. ranking b = p]" for p
      by (simp only: lines_of_rank_distinct [OF dk] zip_filter_tags [OF ms])
    then show ?thesis using Cons by (simp add: D_def ks rank_depends_def previous_rank_def)
  qed
  have "\<exists>g'. rank_loop ?ps (map fst ?ps) [] [] None = Inr g'
           \<and> map fst g' = map fst ?ps
           \<and> (\<forall>x \<in> set ?ps. map_of g' (fst x) = Some (D (snd x)))
           \<and> (\<forall>t. t \<notin> fst ` set ?ps \<longrightarrow> map_of g' t = map_of [] t)"
  proof (rule rank_loop_inv [where pre = "[]"])
    show "D r = (case filter (\<lambda>q. q < r) (map snd ?ps) of
                   [] \<Rightarrow> []
                 | q # qs \<Rightarrow> lines_of_rank ?ps (last (q # qs)))" for r
      by (simp add: D_def)
  qed (use dk so in simp_all)
  then obtain g where g: "rank_loop ?ps (map fst ?ps) [] [] None = Inr g"
      "map fst g = map fst ?ps"
      "\<forall>x \<in> set ?ps. map_of g (fst x) = Some (D (snd x))"
    by blast
  have rg: "ranking_graph cs = Inr g"
    using g(1) by (simp add: ranking_graph_def Let_def tos dict kf)
  have lk: "map_of g t = Some (rank_depends cs (ranking a))"
    if "a \<in> set cs" "tag a = Some t" for a t
  proof -
    have "a \<in> set ?s" using that(1) by simp
    then have "(t, ranking a) \<in> set ?ps"
      using zip_tags_mem [OF ms _ that(2)] by simp
    then show ?thesis using g(3) Deq by fastforce
  qed
  show ?thesis using rg g(2) kf lk by auto
qed

text \<open>
  Claim C4. Under RANKING grading, when every correct fragment has a tag and the tags
  are distinct, the graph has one entry per tag, in ascending rank order, and the entry
  of a fragment of rank \<open>r\<close> is the list of all tags whose rank is the previous
  distinct rank: the greatest rank below \<open>r\<close>. Fragments of the lowest rank get the
  empty list, and no fragment depends on a fragment of its own rank.
\<close>

theorem ranking_graph_spec:
  assumes ts: "tags_of cs = Inr ts" and dt: "distinct ts"
  shows "\<exists>g. ranking_graph cs = Inr g
     \<and> map fst g = List.map_filter tag (sort_key ranking cs)
     \<and> (\<forall>a \<in> set cs. \<forall>t. tag a = Some t \<longrightarrow> map_of g t = Some (rank_depends cs (ranking a)))
     \<and> (\<forall>r t. (t \<in> set (rank_depends cs r))
            = (\<exists>b \<in> set cs. tag b = Some t \<and> previous_rank cs r = Some (ranking b)))
     \<and> (\<forall>r p. (previous_rank cs r = Some p)
            = (p \<in> ranking ` set cs \<and> p < r
               \<and> (\<forall>b \<in> set cs. ranking b < r \<longrightarrow> ranking b \<le> p)))
     \<and> (\<forall>a \<in> set cs. (\<forall>b \<in> set cs. ranking a \<le> ranking b)
            \<longrightarrow> rank_depends cs (ranking a) = [])
     \<and> (\<forall>a \<in> set cs. \<forall>b \<in> set cs. \<forall>t. ranking b = ranking a \<and> tag b = Some t
            \<longrightarrow> t \<notin> set (rank_depends cs (ranking a)))"
proof -
  have mt: "map tag cs = map Some ts" using ts by (simp add: tags_of_iff)
  have inj: "inj_on tag (set cs)"
  proof -
    have "distinct (map tag cs)" unfolding mt using dt by (simp add: distinct_map)
    then show ?thesis by (simp add: distinct_map)
  qed
  have low: "rank_depends cs (ranking a) = []"
    if "a \<in> set cs" "\<forall>b \<in> set cs. ranking a \<le> ranking b" for a
  proof (cases "previous_rank cs (ranking a)")
    case None
    then show ?thesis by (simp add: rank_depends_def)
  next
    case (Some p)
    then have "p \<in> ranking ` set cs \<and> p < ranking a" by (simp add: previous_rank_iff)
    then show ?thesis using that(2) by fastforce
  qed
  have same: "t \<notin> set (rank_depends cs (ranking a))"
    if "a \<in> set cs" "b \<in> set cs" "ranking b = ranking a" "tag b = Some t" for a b t
  proof
    assume "t \<in> set (rank_depends cs (ranking a))"
    then obtain b' where b': "b' \<in> set cs" "tag b' = Some t"
        "previous_rank cs (ranking a) = Some (ranking b')"
      by (auto simp: rank_depends_mem)
    have "tag b' = tag b" using b'(2) that(4) by simp
    then have "b' = b" using inj_onD [OF inj] b'(1) that(2) by blast
    moreover have "ranking b' < ranking a" using b'(3) by (simp add: previous_rank_iff)
    ultimately show False using that(3) by simp
  qed
  obtain g where g: "ranking_graph cs = Inr g"
      "map fst g = List.map_filter tag (sort_key ranking cs)"
      "\<forall>a \<in> set cs. \<forall>t. tag a = Some t \<longrightarrow> map_of g t = Some (rank_depends cs (ranking a))"
    using ranking_graph_lookup [OF ts dt] by blast
  show ?thesis
    apply (rule exI [of _ g])
    apply (intro conjI)
          apply (rule g(1))
         apply (rule g(2))
        apply (rule g(3))
       apply (simp add: rank_depends_mem)
      apply (simp add: previous_rank_iff)
     apply (use low in blast)
    apply (use same in blast)
    done
qed

lemma ex_rank_depends:
  "rank_depends ex_correct3 1 = [] \<and> rank_depends ex_correct3 2 = [Some ''t1'']"
  by code_simp

theorem ranking_graph_spec_witness:
  "map_of (projr (ranking_graph ex_correct3)) (Some ''t1'') = Some []
   \<and> map_of (projr (ranking_graph ex_correct3)) (Some ''t2'') = Some [Some ''t1'']
   \<and> map_of (projr (ranking_graph ex_correct3)) (Some ''t3'') = Some [Some ''t1'']"
proof -
  have t: "tags_of ex_correct3 = Inr [Some ''t1'', Some ''t2'', Some ''t3'']"
    by (simp add: ex_correct3_def answer_block_def)
  have d: "distinct [Some ''t1'', Some ''t2'', Some ''t3'']" by simp
  obtain g where g: "ranking_graph ex_correct3 = Inr g"
      "\<forall>a \<in> set ex_correct3. \<forall>t. tag a = Some t
          \<longrightarrow> map_of g t = Some (rank_depends ex_correct3 (ranking a))"
    using ranking_graph_spec [OF t d] by (elim exE conjE, intro that)
  have "map_of g (Some ''t1'') = Some (rank_depends ex_correct3 1)"
    "map_of g (Some ''t2'') = Some (rank_depends ex_correct3 2)"
    "map_of g (Some ''t3'') = Some (rank_depends ex_correct3 2)"
    using g(2) by (simp_all add: ex_correct3_def answer_block_def)
  then show ?thesis using g(1) ex_rank_depends by simp
qed

section \<open>prepare\<close>










lemma uuids_fresh_next_index [simp]:
  "uuids_fresh env (st\<lparr>next_index := i\<rparr>) = uuids_fresh env st"
  by (simp add: uuids_fresh_def)





lemma map_uuid_set_bin [simp]: "map uuid (set_bin block bin blocks) = map uuid blocks"
  by (simp add: set_bin_def comp_def if_distrib cong: if_cong)

lemma length_set_bin [simp]: "length (set_bin block bin blocks) = length blocks"
  by (simp add: set_bin_def)




















text \<open>
  The case left open in claim C9: a \<^verbatim>\<open>distractor_for\<close> that names the tag of another
  distractor, and of no correct answer, passes the check of lines 372-381 and the
  instance is produced.
\<close>

lemma distractor_for_distractor_completes:
  "\<not> isl (prepare example_env (fixed_checker 1 1 0)
            (order_blocks ''q'' RANKING False None None) ex_refers_to_distractor empty_data)
   \<and> map_option (map (\<lambda>b. (tag b, distractor_for b)))
       (params (projr (prepare example_env (fixed_checker 1 1 0)
                         (order_blocks ''q'' RANKING False None None)
                         ex_refers_to_distractor empty_data)) ''q'')
     = Some [(Some (Some ''a''), None), (Some (Some ''b''), None), (Some (Some ''c''), Some ''b'')]
   \<and> map_option (map tag)
       (correct_answers (projr (prepare example_env (fixed_checker 1 1 0)
                         (order_blocks ''q'' RANKING False None None)
                         ex_refers_to_distractor empty_data)) ''q'')
     = Some [Some (Some ''a'')]"
  by code_simp

end
